theory Spec2Isabelle
  imports Complex_Main "HOL-Library.Multiset"
begin

section \<open>The program\<close>

text \<open>
  A K-Means clustering library in TypeScript. One implementation takes a configuration
  object, seeds with K-Means++ and offers a multi-run selector that keeps the run of
  lowest inertia; a second one takes positional arguments and seeds with a shuffle. Both
  share the distance function, and their assignment step and centroid mean are the same
  text. Each source function is a function here, under its own name; each of its loops
  is a recursive function carrying the loop variables; each \<^verbatim>\<open>throw\<close> is an \<open>Inl\<close> result.
\<close>

section \<open>JavaScript numbers\<close>

text \<open>
  A JavaScript \<^verbatim>\<open>number\<close> is an IEEE 754 binary64 value. The model keeps what the program
  can observe of it: for a finite number its value, a real, and otherwise one of positive
  infinity, negative infinity and NaN. The sign of a zero is not kept: the program never
  divides by a computed value, and no other operation it uses tells \<open>-0\<close> from \<open>+0\<close>.

  Every arithmetic operation on finite numbers returns the exact result rounded to the
  nearest double, ties to the even significand, and overflowing to infinity:
  \<open>round64\<close>. A double is \<open>m \<cdot> 2\<^sup>e\<close> with \<open>|m| < 2\<^sup>5\<^sup>3\<close> and \<open>-1074 \<le> e \<le> 971\<close>; for a real
  \<open>x\<close> with \<open>2\<^sup>e \<le> |x| < 2\<^sup>e\<^sup>+\<^sup>1\<close> the doubles around \<open>x\<close> are the multiples of
  \<open>2\<^sup>e\<^sup>-\<^sup>5\<^sup>2\<close>, and of \<open>2\<^sup>-\<^sup>1\<^sup>0\<^sup>7\<^sup>4\<close> below the normal range.
\<close>

datatype jsnum = Fin real | PInf | NInf | NaN

text \<open>\<open>\<lfloor>log\<^sub>2 n\<rfloor>\<close> for \<open>n \<ge> 1\<close>.\<close>

fun ilog2 :: "nat \<Rightarrow> nat" where
  "ilog2 n = (if n < 2 then 0 else Suc (ilog2 (n div 2)))"

declare ilog2.simps [simp del]

text \<open>The binary exponent of a non-zero real: \<open>2\<^sup>e \<le> |x| < 2\<^sup>e\<^sup>+\<^sup>1\<close>.\<close>

definition expo :: "real \<Rightarrow> int" where
  "expo x = (if 1 \<le> \<bar>x\<bar> then int (ilog2 (nat \<lfloor>\<bar>x\<bar>\<rfloor>))
             else - int (ilog2 (nat (\<lceil>1 / \<bar>x\<bar>\<rceil> - 1))) - 1)"

text \<open>Rounding to the nearest integer, a tie going to the even one.\<close>

definition rne :: "real \<Rightarrow> int" where
  "rne q = (let f = \<lfloor>q\<rfloor>; r = q - of_int f in
            if r < 1 / 2 then f else if 1 / 2 < r then f + 1
            else if even f then f else f + 1)"

text \<open>The distance between the doubles around \<open>x\<close>.\<close>

definition ulp :: "real \<Rightarrow> real" where
  "ulp x = 2 powi (max (expo x) (- 1022) - 52)"

text \<open>The nearest multiple of that distance.\<close>

definition rval :: "real \<Rightarrow> real" where
  "rval x = of_int (rne (x / ulp x)) * ulp x"

definition round64 :: "real \<Rightarrow> jsnum" where
  "round64 x = (let y = rval x in
                if 2 ^ 1024 \<le> y then PInf else if y \<le> - (2 ^ 1024) then NInf else Fin y)"

text \<open>The finite doubles are the reals that rounding leaves alone.\<close>

definition isDouble :: "real \<Rightarrow> bool" where
  "isDouble x = (round64 x = Fin x)"

fun js_add :: "jsnum \<Rightarrow> jsnum \<Rightarrow> jsnum" where
  "js_add NaN y = NaN"
| "js_add x NaN = NaN"
| "js_add (Fin a) (Fin b) = round64 (a + b)"
| "js_add (Fin a) PInf = PInf"
| "js_add (Fin a) NInf = NInf"
| "js_add PInf (Fin b) = PInf"
| "js_add PInf PInf = PInf"
| "js_add PInf NInf = NaN"
| "js_add NInf (Fin b) = NInf"
| "js_add NInf PInf = NaN"
| "js_add NInf NInf = NInf"

fun js_neg :: "jsnum \<Rightarrow> jsnum" where
  "js_neg (Fin a) = Fin (- a)"
| "js_neg PInf = NInf"
| "js_neg NInf = PInf"
| "js_neg NaN = NaN"

definition js_sub :: "jsnum \<Rightarrow> jsnum \<Rightarrow> jsnum" where
  "js_sub x y = js_add x (js_neg y)"

fun js_mul :: "jsnum \<Rightarrow> jsnum \<Rightarrow> jsnum" where
  "js_mul NaN y = NaN"
| "js_mul x NaN = NaN"
| "js_mul (Fin a) (Fin b) = round64 (a * b)"
| "js_mul (Fin a) PInf = (if a = 0 then NaN else if 0 < a then PInf else NInf)"
| "js_mul (Fin a) NInf = (if a = 0 then NaN else if 0 < a then NInf else PInf)"
| "js_mul PInf (Fin b) = (if b = 0 then NaN else if 0 < b then PInf else NInf)"
| "js_mul NInf (Fin b) = (if b = 0 then NaN else if 0 < b then NInf else PInf)"
| "js_mul PInf PInf = PInf"
| "js_mul PInf NInf = NInf"
| "js_mul NInf PInf = NInf"
| "js_mul NInf NInf = PInf"

text \<open>\<^verbatim>\<open>x ** 2\<close>, which is the rounded product \<^verbatim>\<open>x * x\<close>.\<close>

fun js_pow2 :: "jsnum \<Rightarrow> jsnum" where
  "js_pow2 (Fin a) = round64 (a * a)"
| "js_pow2 PInf = PInf"
| "js_pow2 NInf = PInf"
| "js_pow2 NaN = NaN"

text \<open>
  \<^verbatim>\<open>value / points.length\<close>: division by an array length, a non-negative integer. An array
  has fewer than \<open>2\<^sup>3\<^sup>2\<close> elements, so its length is a double.
\<close>

fun js_div_length :: "jsnum \<Rightarrow> nat \<Rightarrow> jsnum" where
  "js_div_length (Fin a) n =
     (if n = 0 then (if a = 0 then NaN else if 0 < a then PInf else NInf)
      else round64 (a / real n))"
| "js_div_length PInf n = PInf"
| "js_div_length NInf n = NInf"
| "js_div_length NaN n = NaN"

text \<open>\<^verbatim>\<open>Math.sqrt\<close>, correctly rounded.\<close>

fun js_sqrt :: "jsnum \<Rightarrow> jsnum" where
  "js_sqrt (Fin a) = (if a < 0 then NaN else round64 (sqrt a))"
| "js_sqrt PInf = PInf"
| "js_sqrt NInf = NaN"
| "js_sqrt NaN = NaN"

text \<open>\<^verbatim>\<open>Math.floor\<close>\<close>

fun js_floor :: "jsnum \<Rightarrow> jsnum" where
  "js_floor (Fin a) = Fin (of_int \<lfloor>a\<rfloor>)"
| "js_floor x = x"

text \<open>The comparisons \<^verbatim>\<open><\<close> and \<^verbatim>\<open>>=\<close>; every comparison with NaN is false.\<close>

fun js_lt :: "jsnum \<Rightarrow> jsnum \<Rightarrow> bool" where
  "js_lt NaN y = False"
| "js_lt x NaN = False"
| "js_lt (Fin a) (Fin b) = (a < b)"
| "js_lt (Fin a) PInf = True"
| "js_lt (Fin a) NInf = False"
| "js_lt PInf y = False"
| "js_lt NInf (Fin b) = True"
| "js_lt NInf PInf = True"
| "js_lt NInf NInf = False"

fun js_ge :: "jsnum \<Rightarrow> jsnum \<Rightarrow> bool" where
  "js_ge NaN y = False"
| "js_ge x NaN = False"
| "js_ge (Fin a) (Fin b) = (b \<le> a)"
| "js_ge (Fin a) PInf = False"
| "js_ge (Fin a) NInf = True"
| "js_ge PInf y = True"
| "js_ge NInf (Fin b) = False"
| "js_ge NInf PInf = False"
| "js_ge NInf NInf = True"

text \<open>\<^verbatim>\<open>isNaN\<close>\<close>

fun js_isNaN :: "jsnum \<Rightarrow> bool" where
  "js_isNaN NaN = True"
| "js_isNaN x = False"

text \<open>
  A runtime value as \<^verbatim>\<open>typeof\<close> sees it: a number, or a value of any other type.
  Only the coordinate check of \<^verbatim>\<open>calculateCentroidPosition\<close> inspects the type tag;
  everywhere else the declared type \<^verbatim>\<open>number[][]\<close> is taken at its word.
\<close>

datatype jsval = JNumber jsnum | JOther

section \<open>Data model\<close>

type_synonym point = "jsnum list"

record cluster =
  centroid :: point
  points :: "point list"

text \<open>
  One constructor per \<^verbatim>\<open>throw\<close> site, in this order:
  "Invalid number of clusters or empty dataset.",
  "All data points must have the same dimensions.",
  "Points must have the same number of dimensions.",
  "Cannot calculate the mean of an empty cluster.",
  "Points must have at least one dimension.",
  "Point has incorrect dimensions: ...",
  "Invalid coordinate value at dimension ...",
  "Number of clusters cannot exceed number of data points";
  \<open>TypeError\<close> is what a property read on \<^verbatim>\<open>undefined\<close> raises. The values interpolated
  into two of the messages are not kept.
\<close>

datatype error =
    InvalidClusterCountOrEmptyDataset
  | DataDimensionMismatch
  | DistanceDimensionMismatch
  | EmptyCluster
  | NoDimensions
  | PointDimensionMismatch
  | InvalidCoordinate
  | TooManyClusters
  | TypeError

text \<open>
  \<^verbatim>\<open>Math.random()\<close> is a global source: the model passes the sequence of its results
  and the position of the next one, and every function that draws returns the new position.
  The values drawn are doubles in \<open>[0, 1)\<close>.
\<close>

type_synonym rng = "nat \<Rightarrow> real"

definition rng_ok :: "rng \<Rightarrow> bool" where
  "rng_ok r = (\<forall>i. 0 \<le> r i \<and> r i < 1 \<and> isDouble (r i))"

section \<open>Distance\<close>

definition euclideanDistance :: "point \<Rightarrow> point \<Rightarrow> error + jsnum" where
  "euclideanDistance point1 point2 =
     (if length point1 \<noteq> length point2 then Inl DistanceDimensionMismatch
      else Inr (js_sqrt
        (foldl (\<lambda>sum (v, w). js_add sum (js_pow2 (js_sub v w))) (Fin 0) (zip point1 point2))))"

section \<open>K-Means++ seeding\<close>

text \<open>\<^verbatim>\<open>Math.floor(Math.random() * data.length)\<close>\<close>

definition randomIndex :: "rng \<Rightarrow> nat \<Rightarrow> nat \<Rightarrow> jsnum" where
  "randomIndex r n len = js_floor (js_mul (Fin (r n)) (Fin (real len)))"

text \<open>
  \<^verbatim>\<open>data[randomIndex]\<close>. Anything but an index of the array reads \<^verbatim>\<open>undefined\<close>, which the
  next distance computation dereferences; the model raises that \<open>TypeError\<close> at the read.
\<close>

definition readPoint :: "point list \<Rightarrow> jsnum \<Rightarrow> error + point" where
  "readPoint data i =
     (case i of
        Fin v \<Rightarrow>
          (if 0 \<le> v \<and> v < real (length data) \<and> v = of_int \<lfloor>v\<rfloor> then Inr (data ! nat \<lfloor>v\<rfloor>)
           else Inl TypeError)
      | _ \<Rightarrow> Inl TypeError)"

text \<open>The inner \<^verbatim>\<open>centroids.forEach\<close>, carrying \<^verbatim>\<open>minDistance\<close>.\<close>

fun minDistance :: "point \<Rightarrow> point list \<Rightarrow> jsnum \<Rightarrow> error + jsnum" where
  "minDistance p [] m = Inr m"
| "minDistance p (c # cs) m =
     (case euclideanDistance p c of
        Inl e \<Rightarrow> Inl e
      | Inr d \<Rightarrow> minDistance p cs (if js_lt d m then d else m))"

text \<open>\<^verbatim>\<open>data.map(point => ... minDistance * minDistance)\<close>\<close>

fun squaredDistances :: "point list \<Rightarrow> point list \<Rightarrow> error + jsnum list" where
  "squaredDistances [] cs = Inr []"
| "squaredDistances (p # ps) cs =
     (case minDistance p cs PInf of
        Inl e \<Rightarrow> Inl e
      | Inr m \<Rightarrow>
          (case squaredDistances ps cs of
             Inl e \<Rightarrow> Inl e
           | Inr ds \<Rightarrow> Inr (js_mul m m # ds)))"

text \<open>
  The \<^verbatim>\<open>for\<close> loop over \<^verbatim>\<open>distances\<close> with its \<^verbatim>\<open>break\<close>: the point selected, or
  \<open>None\<close> when the loop runs off the end without pushing.
\<close>

fun selectNext :: "jsnum list \<Rightarrow> point list \<Rightarrow> jsnum \<Rightarrow> jsnum \<Rightarrow> point option" where
  "selectNext (w # ws) (p # ps) cumulativeSum randomValue =
     (if js_ge (js_add cumulativeSum w) randomValue then Some p
      else selectNext ws ps (js_add cumulativeSum w) randomValue)"
| "selectNext ws ps cumulativeSum randomValue = None"

text \<open>
  The \<^verbatim>\<open>while (centroids.length < k)\<close> loop. A pass that selects nothing leaves
  \<^verbatim>\<open>centroids\<close> as it was, so the loop need not terminate: not returning is \<open>None\<close>.
\<close>

partial_function (option) seedLoop ::
  "rng \<Rightarrow> point list \<Rightarrow> int \<Rightarrow> point list \<Rightarrow> nat \<Rightarrow> (error + point list \<times> nat) option"
where
  "seedLoop r data k centroids n =
     (if int (length centroids) < k then
        (case squaredDistances data centroids of
           Inl e \<Rightarrow> Some (Inl e)
         | Inr distances \<Rightarrow>
             (case selectNext distances data (Fin 0)
                     (js_mul (Fin (r n)) (foldl js_add (Fin 0) distances)) of
                None \<Rightarrow> seedLoop r data k centroids (Suc n)
              | Some p \<Rightarrow> seedLoop r data k (centroids @ [p]) (Suc n)))
      else Some (Inr (centroids, n)))"

definition initializeCentroidsWithKMeansPlusPlus ::
  "rng \<Rightarrow> point list \<Rightarrow> int \<Rightarrow> nat \<Rightarrow> (error + point list \<times> nat) option"
where
  "initializeCentroidsWithKMeansPlusPlus r data k n =
     (case readPoint data (randomIndex r n (length data)) of
        Inl e \<Rightarrow> Some (Inl e)
      | Inr c \<Rightarrow> seedLoop r data k [c] (Suc n))"

section \<open>Assignment\<close>

text \<open>
  The \<^verbatim>\<open>centroids.forEach((centroid, i) => ...)\<close> scan, carrying the index \<open>i\<close>,
  \<^verbatim>\<open>nearestIndex\<close> and \<^verbatim>\<open>shortestDistance\<close>.
\<close>

fun nearestScan :: "point \<Rightarrow> point list \<Rightarrow> nat \<Rightarrow> nat \<Rightarrow> jsnum \<Rightarrow> error + nat" where
  "nearestScan p [] i nearestIndex shortestDistance = Inr nearestIndex"
| "nearestScan p (c # cs) i nearestIndex shortestDistance =
     (case euclideanDistance p c of
        Inl e \<Rightarrow> Inl e
      | Inr d \<Rightarrow>
          (if js_lt d shortestDistance then nearestScan p cs (Suc i) i d
           else nearestScan p cs (Suc i) nearestIndex shortestDistance))"

text \<open>With no centroid at all, \<^verbatim>\<open>centroids[0]\<close> is \<^verbatim>\<open>undefined\<close> and the distance call throws.\<close>

definition nearestCentroid :: "point \<Rightarrow> point list \<Rightarrow> error + nat" where
  "nearestCentroid p centroids =
     (case centroids of
        [] \<Rightarrow> Inl TypeError
      | c0 # rest \<Rightarrow>
          (case euclideanDistance p c0 of
             Inl e \<Rightarrow> Inl e
           | Inr d0 \<Rightarrow> nearestScan p centroids 0 0 d0))"

text \<open>\<^verbatim>\<open>clusters[nearestIndex].points.push(point)\<close>\<close>

definition pushPoint :: "cluster list \<Rightarrow> nat \<Rightarrow> point \<Rightarrow> cluster list" where
  "pushPoint clusters i p = clusters[i := (clusters ! i)\<lparr>points := points (clusters ! i) @ [p]\<rparr>]"

fun assignLoop :: "point list \<Rightarrow> point list \<Rightarrow> cluster list \<Rightarrow> error + cluster list" where
  "assignLoop [] centroids clusters = Inr clusters"
| "assignLoop (p # ps) centroids clusters =
     (case nearestCentroid p centroids of
        Inl e \<Rightarrow> Inl e
      | Inr nearestIndex \<Rightarrow> assignLoop ps centroids (pushPoint clusters nearestIndex p))"

definition assignPointsToCentroidClusters :: "point list \<Rightarrow> point list \<Rightarrow> error + cluster list" where
  "assignPointsToCentroidClusters data centroids =
     assignLoop data centroids (map (\<lambda>c. \<lparr>centroid = c, points = []\<rparr>) centroids)"

section \<open>Centroid mean\<close>

text \<open>
  The inner \<^verbatim>\<open>point.forEach((value, i) => ...)\<close>: check the coordinate, then
  \<^verbatim>\<open>mean[i] += value\<close>. A write past the end of \<^verbatim>\<open>mean\<close> would add to \<^verbatim>\<open>undefined\<close>,
  giving NaN.
\<close>

fun addPoint :: "jsnum list \<Rightarrow> jsval list \<Rightarrow> error + jsnum list" where
  "addPoint mean [] = Inr mean"
| "addPoint mean (JOther # vs) = Inl InvalidCoordinate"
| "addPoint mean (JNumber x # vs) =
     (if js_isNaN x then Inl InvalidCoordinate
      else (case addPoint (tl mean) vs of
              Inl e \<Rightarrow> Inl e
            | Inr rest \<Rightarrow> Inr ((case mean of [] \<Rightarrow> NaN | m # ms \<Rightarrow> js_add m x) # rest)))"

text \<open>The outer \<^verbatim>\<open>points.forEach\<close>, carrying \<^verbatim>\<open>mean\<close>.\<close>

fun sumPoints :: "nat \<Rightarrow> jsnum list \<Rightarrow> jsval list list \<Rightarrow> error + jsnum list" where
  "sumPoints dimensionOfPoints mean [] = Inr mean"
| "sumPoints dimensionOfPoints mean (p # ps) =
     (if length p \<noteq> dimensionOfPoints then Inl PointDimensionMismatch
      else (case addPoint mean p of
              Inl e \<Rightarrow> Inl e
            | Inr mean' \<Rightarrow> sumPoints dimensionOfPoints mean' ps))"

definition calculateCentroidPosition :: "jsval list list \<Rightarrow> error + point" where
  "calculateCentroidPosition pts =
     (case pts of
        [] \<Rightarrow> Inl EmptyCluster
      | p0 # rest \<Rightarrow>
          (if length p0 < 1 then Inl NoDimensions
           else (case sumPoints (length p0) (replicate (length p0) (Fin 0)) pts of
                   Inl e \<Rightarrow> Inl e
                 | Inr mean \<Rightarrow> Inr (map (\<lambda>v. js_div_length v (length pts)) mean))))"

section \<open>The convergence loop\<close>

text \<open>
  \<^verbatim>\<open>clusters.map(cluster => ...)\<close>: an empty cluster is re-seeded with a fresh draw,
  any other gets the mean of its points. The seeding result always holds the first
  centroid, pushed unconditionally; were it empty, \<^verbatim>\<open>[0]\<close> would read \<^verbatim>\<open>undefined\<close>.
\<close>

fun newCentroidsOf ::
  "rng \<Rightarrow> point list \<Rightarrow> cluster list \<Rightarrow> nat \<Rightarrow> (error + point list \<times> nat) option"
where
  "newCentroidsOf r data [] n = Some (Inr ([], n))"
| "newCentroidsOf r data (c # cs) n =
     (if length (points c) = 0 then
        (case initializeCentroidsWithKMeansPlusPlus r data 1 n of
           None \<Rightarrow> None
         | Some (Inl e) \<Rightarrow> Some (Inl e)
         | Some (Inr (seeds, n')) \<Rightarrow>
             (case seeds of
                [] \<Rightarrow> Some (Inl TypeError)
              | s # others \<Rightarrow>
                  (case newCentroidsOf r data cs n' of
                     None \<Rightarrow> None
                   | Some (Inl e) \<Rightarrow> Some (Inl e)
                   | Some (Inr (rest, n'')) \<Rightarrow> Some (Inr (s # rest, n'')))))
      else
        (case calculateCentroidPosition (map (map JNumber) (points c)) of
           Inl e \<Rightarrow> Some (Inl e)
         | Inr m \<Rightarrow>
             (case newCentroidsOf r data cs n of
                None \<Rightarrow> None
              | Some (Inl e) \<Rightarrow> Some (Inl e)
              | Some (Inr (rest, n')) \<Rightarrow> Some (Inr (m # rest, n')))))"

text \<open>
  \<^verbatim>\<open>centroids.every((centroid, i) => euclideanDistance(centroid, newCentroids[i]) < tolerance)\<close>,
  which stops at the first centroid that moved too far.
\<close>

fun allWithinTolerance :: "jsnum \<Rightarrow> point list \<Rightarrow> point list \<Rightarrow> error + bool" where
  "allWithinTolerance tolerance [] newCentroids = Inr True"
| "allWithinTolerance tolerance (c # cs) [] = Inl TypeError"
| "allWithinTolerance tolerance (c # cs) (c' # cs') =
     (case euclideanDistance c c' of
        Inl e \<Rightarrow> Inl e
      | Inr d \<Rightarrow> (if js_lt d tolerance then allWithinTolerance tolerance cs cs' else Inr False))"

text \<open>
  One pass of the loop body: the clusters assigned, the new centroids, the convergence flag
  and the position of the random source afterwards.
\<close>

definition kMeansIteration ::
  "rng \<Rightarrow> point list \<Rightarrow> jsnum \<Rightarrow> point list \<Rightarrow> nat
     \<Rightarrow> (error + cluster list \<times> point list \<times> bool \<times> nat) option"
where
  "kMeansIteration r data tolerance centroids n =
     (case assignPointsToCentroidClusters data centroids of
        Inl e \<Rightarrow> Some (Inl e)
      | Inr clusters \<Rightarrow>
          (case newCentroidsOf r data clusters n of
             None \<Rightarrow> None
           | Some (Inl e) \<Rightarrow> Some (Inl e)
           | Some (Inr (newCentroids, n')) \<Rightarrow>
               (case allWithinTolerance tolerance centroids newCentroids of
                  Inl e \<Rightarrow> Some (Inl e)
                | Inr conv \<Rightarrow> Some (Inr (clusters, newCentroids, conv, n')))))"

text \<open>
  \<^verbatim>\<open>while (!hasConverged && iteration < maxIterations)\<close>, returning the loop variables
  as they stand when the loop is left.
\<close>

function kMeansLoop ::
  "rng \<Rightarrow> point list \<Rightarrow> int \<Rightarrow> jsnum \<Rightarrow> point list \<Rightarrow> cluster list \<Rightarrow> bool \<Rightarrow> nat \<Rightarrow> nat
     \<Rightarrow> (error + point list \<times> cluster list \<times> bool \<times> nat \<times> nat) option"
where
  "kMeansLoop r data maxIterations tolerance centroids clusters hasConverged iteration n =
     (if \<not> hasConverged \<and> int iteration < maxIterations then
        (case kMeansIteration r data tolerance centroids n of
           None \<Rightarrow> None
         | Some (Inl e) \<Rightarrow> Some (Inl e)
         | Some (Inr (clusters', newCentroids, conv, n')) \<Rightarrow>
             kMeansLoop r data maxIterations tolerance newCentroids clusters' conv
               (Suc iteration) n')
      else Some (Inr (centroids, clusters, hasConverged, iteration, n)))"
  by pat_completeness auto
termination
  by (relation "measure (\<lambda>(r, data, maxIterations, tolerance, centroids, clusters,
        hasConverged, iteration, n). nat (maxIterations - int iteration))") auto

declare kMeansLoop.simps [simp del]

text \<open>
  \<^verbatim>\<open>kMeans({ data, k, maxIterations = 100, tolerance = 1e-6 })\<close>: an omitted optional
  field is \<open>None\<close>. The literal \<^verbatim>\<open>1e-6\<close> is the double nearest to \<open>10\<^sup>-\<^sup>6\<close>. The counts \<open>k\<close>,
  \<open>maxIterations\<close> and, below, \<open>numRuns\<close> are integers.
\<close>

definition kMeans ::
  "rng \<Rightarrow> point list \<Rightarrow> int \<Rightarrow> int option \<Rightarrow> jsnum option \<Rightarrow> nat
     \<Rightarrow> (error + cluster list \<times> nat) option"
where
  "kMeans r data k maxIterationsOpt toleranceOpt n =
     (let maxIterations = (case maxIterationsOpt of None \<Rightarrow> 100 | Some m \<Rightarrow> m);
          tolerance = (case toleranceOpt of None \<Rightarrow> round64 (1 / 1000000) | Some t \<Rightarrow> t)
      in
        if length data = 0 \<or> k \<le> 0 \<or> k > int (length data) then
          Some (Inl InvalidClusterCountOrEmptyDataset)
        else if \<not> list_all (\<lambda>p. length p = length (hd data)) data then
          Some (Inl DataDimensionMismatch)
        else
          (case initializeCentroidsWithKMeansPlusPlus r data k n of
             None \<Rightarrow> None
           | Some (Inl e) \<Rightarrow> Some (Inl e)
           | Some (Inr (centroids, n1)) \<Rightarrow>
               (case kMeansLoop r data maxIterations tolerance centroids [] False 0 n1 of
                  None \<Rightarrow> None
                | Some (Inl e) \<Rightarrow> Some (Inl e)
                | Some (Inr (centroids', clusters, hasConverged, iteration, n2)) \<Rightarrow>
                    Some (Inr (clusters, n2)))))"

section \<open>Inertia and the multi-run selector\<close>

text \<open>The inner \<^verbatim>\<open>cluster.points.reduce\<close>, carrying \<^verbatim>\<open>sum\<close>.\<close>

fun sumSquares :: "point \<Rightarrow> point list \<Rightarrow> jsnum \<Rightarrow> error + jsnum" where
  "sumSquares c [] s = Inr s"
| "sumSquares c (p # ps) s =
     (case euclideanDistance p c of
        Inl e \<Rightarrow> Inl e
      | Inr d \<Rightarrow> sumSquares c ps (js_add s (js_pow2 d)))"

text \<open>The outer \<^verbatim>\<open>clusters.reduce\<close>, carrying \<^verbatim>\<open>inertia\<close>.\<close>

fun inertiaLoop :: "cluster list \<Rightarrow> jsnum \<Rightarrow> error + jsnum" where
  "inertiaLoop [] inertia = Inr inertia"
| "inertiaLoop (c # cs) inertia =
     (case sumSquares (centroid c) (points c) (Fin 0) of
        Inl e \<Rightarrow> Inl e
      | Inr s \<Rightarrow> inertiaLoop cs (js_add inertia s))"

definition calculateInertia :: "cluster list \<Rightarrow> error + jsnum" where
  "calculateInertia clusters = inertiaLoop clusters (Fin 0)"

text \<open>\<^verbatim>\<open>for (let i = 0; i < numRuns; i++)\<close>, carrying \<^verbatim>\<open>bestClusters\<close> and \<^verbatim>\<open>bestInertia\<close>.\<close>

function bestLoop ::
  "rng \<Rightarrow> point list \<Rightarrow> int \<Rightarrow> int \<Rightarrow> jsnum \<Rightarrow> int \<Rightarrow> nat \<Rightarrow> cluster list \<Rightarrow> jsnum \<Rightarrow> nat
     \<Rightarrow> (error + cluster list \<times> nat) option"
where
  "bestLoop r data k maxIterations tolerance numRuns i bestClusters bestInertia n =
     (if int i < numRuns then
        (case kMeans r data k (Some maxIterations) (Some tolerance) n of
           None \<Rightarrow> None
         | Some (Inl e) \<Rightarrow> Some (Inl e)
         | Some (Inr (clusters, n')) \<Rightarrow>
             (case calculateInertia clusters of
                Inl e \<Rightarrow> Some (Inl e)
              | Inr inertia \<Rightarrow>
                  (if js_lt inertia bestInertia then
                     bestLoop r data k maxIterations tolerance numRuns (Suc i) clusters inertia n'
                   else
                     bestLoop r data k maxIterations tolerance numRuns (Suc i) bestClusters
                       bestInertia n')))
      else Some (Inr (bestClusters, n)))"
  by pat_completeness auto
termination
  by (relation "measure (\<lambda>(r, data, k, maxIterations, tolerance, numRuns, i, bestClusters,
        bestInertia, n). nat (numRuns - int i))") auto

declare bestLoop.simps [simp del]

definition runKMeansWithOptimalInertia ::
  "rng \<Rightarrow> point list \<Rightarrow> int \<Rightarrow> int option \<Rightarrow> jsnum option \<Rightarrow> int option \<Rightarrow> nat
     \<Rightarrow> (error + cluster list \<times> nat) option"
where
  "runKMeansWithOptimalInertia r data k maxIterationsOpt toleranceOpt numRunsOpt n =
     bestLoop r data k
       (case maxIterationsOpt of None \<Rightarrow> 100 | Some m \<Rightarrow> m)
       (case toleranceOpt of None \<Rightarrow> round64 (1 / 1000000) | Some t \<Rightarrow> t)
       (case numRunsOpt of None \<Rightarrow> 10 | Some m \<Rightarrow> m)
       0 [] PInf n"

section \<open>The positional implementation\<close>

text \<open>
  A second \<^verbatim>\<open>kMeans\<close> takes its arguments by position and seeds with the first \<open>k\<close>
  entries of a Fisher-Yates shuffle. Its validation, its loop, its assignment and its
  centroid mean are the same text as above; only the seeding differs, and it always
  returns.
\<close>

text \<open>
  \<^verbatim>\<open>for (let i = indices.length - 1; i > 0; i--)\<close>, swapping entries \<open>i\<close> and
  \<^verbatim>\<open>Math.floor(Math.random() * (i + 1))\<close>. A draw in \<open>[0, 1)\<close> gives an index of the array;
  any other would put \<^verbatim>\<open>undefined\<close> among the indices, and the model raises the
  \<open>TypeError\<close> that follows at the swap.
\<close>

fun shuffleLoop :: "rng \<Rightarrow> nat list \<Rightarrow> nat \<Rightarrow> nat \<Rightarrow> error + nat list \<times> nat" where
  "shuffleLoop r indices 0 n = Inr (indices, n)"
| "shuffleLoop r indices (Suc i) n =
     (case js_floor (js_mul (Fin (r n)) (Fin (real (Suc i + 1)))) of
        Fin j \<Rightarrow>
          (if 0 \<le> j \<and> j < real (length indices) \<and> j = of_int \<lfloor>j\<rfloor> then
             shuffleLoop r ((indices[Suc i := indices ! nat \<lfloor>j\<rfloor>])[nat \<lfloor>j\<rfloor> := indices ! Suc i])
               i (Suc n)
           else Inl TypeError)
      | _ \<Rightarrow> Inl TypeError)"

text \<open>\<^verbatim>\<open>indices.slice(0, k)\<close>: a negative end counts from the end of the array.\<close>

definition sliceTo :: "'a list \<Rightarrow> int \<Rightarrow> 'a list" where
  "sliceTo xs k = (if 0 \<le> k then take (nat k) xs else take (nat (int (length xs) + k)) xs)"

definition initialiseCentroids :: "rng \<Rightarrow> point list \<Rightarrow> int \<Rightarrow> nat \<Rightarrow> error + point list \<times> nat" where
  "initialiseCentroids r data k n =
     (if k > int (length data) then Inl TooManyClusters
      else (case shuffleLoop r [0..<length data] (length data - 1) n of
              Inl e \<Rightarrow> Inl e
            | Inr (indices, n') \<Rightarrow> Inr (map (\<lambda>index. data ! index) (sliceTo indices k), n')))"

fun newCentroidsOf_positional ::
  "rng \<Rightarrow> point list \<Rightarrow> cluster list \<Rightarrow> nat \<Rightarrow> error + point list \<times> nat"
where
  "newCentroidsOf_positional r data [] n = Inr ([], n)"
| "newCentroidsOf_positional r data (c # cs) n =
     (if length (points c) = 0 then
        (case initialiseCentroids r data 1 n of
           Inl e \<Rightarrow> Inl e
         | Inr (seeds, n') \<Rightarrow>
             (case seeds of
                [] \<Rightarrow> Inl TypeError
              | s # others \<Rightarrow>
                  (case newCentroidsOf_positional r data cs n' of
                     Inl e \<Rightarrow> Inl e
                   | Inr (rest, n'') \<Rightarrow> Inr (s # rest, n''))))
      else
        (case calculateCentroidPosition (map (map JNumber) (points c)) of
           Inl e \<Rightarrow> Inl e
         | Inr m \<Rightarrow>
             (case newCentroidsOf_positional r data cs n of
                Inl e \<Rightarrow> Inl e
              | Inr (rest, n') \<Rightarrow> Inr (m # rest, n'))))"

definition kMeansIteration_positional ::
  "rng \<Rightarrow> point list \<Rightarrow> jsnum \<Rightarrow> point list \<Rightarrow> nat
     \<Rightarrow> error + cluster list \<times> point list \<times> bool \<times> nat"
where
  "kMeansIteration_positional r data tolerance centroids n =
     (case assignPointsToCentroidClusters data centroids of
        Inl e \<Rightarrow> Inl e
      | Inr clusters \<Rightarrow>
          (case newCentroidsOf_positional r data clusters n of
             Inl e \<Rightarrow> Inl e
           | Inr (newCentroids, n') \<Rightarrow>
               (case allWithinTolerance tolerance centroids newCentroids of
                  Inl e \<Rightarrow> Inl e
                | Inr conv \<Rightarrow> Inr (clusters, newCentroids, conv, n'))))"

function kMeansLoop_positional ::
  "rng \<Rightarrow> point list \<Rightarrow> int \<Rightarrow> jsnum \<Rightarrow> point list \<Rightarrow> cluster list \<Rightarrow> bool \<Rightarrow> nat \<Rightarrow> nat
     \<Rightarrow> error + point list \<times> cluster list \<times> bool \<times> nat \<times> nat"
where
  "kMeansLoop_positional r data maxIterations tolerance centroids clusters hasConverged
       iteration n =
     (if \<not> hasConverged \<and> int iteration < maxIterations then
        (case kMeansIteration_positional r data tolerance centroids n of
           Inl e \<Rightarrow> Inl e
         | Inr (clusters', newCentroids, conv, n') \<Rightarrow>
             kMeansLoop_positional r data maxIterations tolerance newCentroids clusters' conv
               (Suc iteration) n')
      else Inr (centroids, clusters, hasConverged, iteration, n))"
  by pat_completeness auto
termination
  by (relation "measure (\<lambda>(r, data, maxIterations, tolerance, centroids, clusters,
        hasConverged, iteration, n). nat (maxIterations - int iteration))") auto

declare kMeansLoop_positional.simps [simp del]

text \<open>\<^verbatim>\<open>kMeans(data, k, maxIterations = 100, tolerance = 1e-6)\<close>\<close>

definition kMeans_positional ::
  "rng \<Rightarrow> point list \<Rightarrow> int \<Rightarrow> int option \<Rightarrow> jsnum option \<Rightarrow> nat \<Rightarrow> error + cluster list \<times> nat"
where
  "kMeans_positional r data k maxIterationsOpt toleranceOpt n =
     (let maxIterations = (case maxIterationsOpt of None \<Rightarrow> 100 | Some m \<Rightarrow> m);
          tolerance = (case toleranceOpt of None \<Rightarrow> round64 (1 / 1000000) | Some t \<Rightarrow> t)
      in
        if length data = 0 \<or> k \<le> 0 \<or> k > int (length data) then
          Inl InvalidClusterCountOrEmptyDataset
        else if \<not> list_all (\<lambda>p. length p = length (hd data)) data then
          Inl DataDimensionMismatch
        else
          (case initialiseCentroids r data k n of
             Inl e \<Rightarrow> Inl e
           | Inr (centroids, n1) \<Rightarrow>
               (case kMeansLoop_positional r data maxIterations tolerance centroids [] False 0 n1 of
                  Inl e \<Rightarrow> Inl e
                | Inr (centroids', clusters, hasConverged, iteration, n2) \<Rightarrow>
                    Inr (clusters, n2))))"

section \<open>Vocabulary of the properties\<close>

text \<open>
  A dataset in the sense of the specification holds points of real numbers: every
  coordinate is a finite number. \<open>realData\<close> says so of a list of points, and
  \<open>uniformDim d\<close> that all of them have \<open>d\<close> coordinates.
\<close>

fun isReal :: "jsnum \<Rightarrow> bool" where
  "isReal (Fin a) = True"
| "isReal x = False"

fun toReal :: "jsnum \<Rightarrow> real" where
  "toReal (Fin a) = a"
| "toReal x = 0"

definition realPoint :: "point \<Rightarrow> bool" where
  "realPoint p = list_all isReal p"

definition realData :: "point list \<Rightarrow> bool" where
  "realData ps = list_all realPoint ps"

definition uniformDim :: "nat \<Rightarrow> point list \<Rightarrow> bool" where
  "uniformDim d ps = list_all (\<lambda>p. length p = d) ps"

text \<open>A coordinate that is a number, finite or infinite: anything but NaN.\<close>

fun isNumber :: "jsnum \<Rightarrow> bool" where
  "isNumber NaN = False"
| "isNumber x = True"

definition numPoint :: "point \<Rightarrow> bool" where
  "numPoint p = list_all isNumber p"

definition numData :: "point list \<Rightarrow> bool" where
  "numData ps = list_all numPoint ps"


text \<open>The Euclidean distance of the specification, \<open>sqrt (\<Sum> (a\<^sub>i - b\<^sub>i)\<^sup>2)\<close>, on the reals.\<close>

definition sqDistance :: "point \<Rightarrow> point \<Rightarrow> real" where
  "sqDistance p q = (\<Sum>(v, w)\<leftarrow>zip p q. (toReal v - toReal w)\<^sup>2)"

definition distance :: "point \<Rightarrow> point \<Rightarrow> real" where
  "distance p q = sqrt (sqDistance p q)"

text \<open>
  The same formula evaluated in binary64 from the first coordinate to the last: each
  difference, each square, each partial sum and the root are rounded.
\<close>

fun sumSq64 :: "jsnum \<Rightarrow> point \<Rightarrow> point \<Rightarrow> jsnum" where
  "sumSq64 s (a # p) (b # q) = sumSq64 (js_add s (js_pow2 (js_sub a b))) p q"
| "sumSq64 s p q = s"

definition distance64 :: "point \<Rightarrow> point \<Rightarrow> jsnum" where
  "distance64 p q = js_sqrt (sumSq64 (Fin 0) p q)"

text \<open>What a distance or a sampling weight can be: a non-negative double, or infinity.\<close>

fun isWeight :: "jsnum \<Rightarrow> bool" where
  "isWeight (Fin a) = (0 \<le> a \<and> isDouble a)"
| "isWeight PInf = True"
| "isWeight x = False"

text \<open>
  Centroid \<open>j\<close> is the nearest to \<open>p\<close> by the distances computed, ties going to the lowest
  index: no centroid is closer, and every centroid before \<open>j\<close> is strictly farther.
\<close>

definition isNearestFirst :: "point \<Rightarrow> point list \<Rightarrow> nat \<Rightarrow> bool" where
  "isNearestFirst p cs j =
     (j < length cs \<and>
      (\<forall>i<length cs. \<not> js_lt (distance64 p (cs ! i)) (distance64 p (cs ! j))) \<and>
      (\<forall>i<j. js_lt (distance64 p (cs ! j)) (distance64 p (cs ! i))))"

text \<open>The coordinate-wise arithmetic mean of a non-empty list of real points, on the reals.\<close>

definition meanPoint :: "point list \<Rightarrow> point" where
  "meanPoint ps =
     map (\<lambda>i. Fin ((\<Sum>p\<leftarrow>ps. toReal (p ! i)) / real (length ps))) [0..<length (hd ps)]"

text \<open>
  The mean evaluated in binary64: coordinate by coordinate, the sum of the points in
  order, starting from 0 and rounded at every addition, then divided by their number.
\<close>

definition mean64 :: "point list \<Rightarrow> point" where
  "mean64 ps =
     map (\<lambda>i. js_div_length (foldl js_add (Fin 0) (map (\<lambda>p. p ! i) ps)) (length ps))
       [0..<length (hd ps)]"


text \<open>
  The loop variables after \<open>m\<close> passes of the loop body, started from the given centroids,
  clusters, convergence flag and position of the random source, with no exit test in between.
\<close>

fun stateAfter ::
  "rng \<Rightarrow> point list \<Rightarrow> jsnum \<Rightarrow> point list \<Rightarrow> cluster list \<Rightarrow> bool \<Rightarrow> nat \<Rightarrow> nat
     \<Rightarrow> (error + point list \<times> cluster list \<times> bool \<times> nat) option"
where
  "stateAfter r data tolerance cs cl conv n 0 = Some (Inr (cs, cl, conv, n))"
| "stateAfter r data tolerance cs cl conv n (Suc m) =
     (case kMeansIteration r data tolerance cs n of
        None \<Rightarrow> None
      | Some (Inl e) \<Rightarrow> Some (Inl e)
      | Some (Inr (cl1, cs1, conv1, n1)) \<Rightarrow> stateAfter r data tolerance cs1 cl1 conv1 n1 m)"

text \<open>The two errors raised by the entry validation of \<^verbatim>\<open>kMeans\<close>.\<close>

fun isValidationError :: "error \<Rightarrow> bool" where
  "isValidationError InvalidClusterCountOrEmptyDataset = True"
| "isValidationError DataDimensionMismatch = True"
| "isValidationError e = False"

text \<open>
  Inertia as the specification defines it, on the reals: the sum, over the clusters and
  over the points of each, of the squared distance from the point to the centroid of its
  cluster. \<open>realClusters d\<close> says that centroids and points are real points of \<open>d\<close>
  coordinates.
\<close>

definition clusterCost :: "point \<Rightarrow> point list \<Rightarrow> real" where
  "clusterCost c ps = (\<Sum>p\<leftarrow>ps. sqDistance p c)"

definition inertia :: "cluster list \<Rightarrow> real" where
  "inertia cl = (\<Sum>c\<leftarrow>cl. clusterCost (centroid c) (points c))"

definition realClusters :: "nat \<Rightarrow> cluster list \<Rightarrow> bool" where
  "realClusters d cl =
     list_all (\<lambda>c. realPoint (centroid c) \<and> length (centroid c) = d \<and>
                    realData (points c) \<and> uniformDim d (points c)) cl"

text \<open>
  The same sums evaluated in binary64: for each cluster the squares of the distances
  computed are added in the order of its points, and the cluster sums in the order of the
  clusters.
\<close>

definition clusterCost64 :: "point \<Rightarrow> point list \<Rightarrow> jsnum" where
  "clusterCost64 c ps = foldl (\<lambda>s p. js_add s (js_pow2 (distance64 p c))) (Fin 0) ps"

definition inertia64 :: "cluster list \<Rightarrow> jsnum" where
  "inertia64 cl = foldl (\<lambda>x c. js_add x (clusterCost64 (centroid c) (points c))) (Fin 0) cl"

text \<open>
  The results of \<open>m\<close> consecutive runs of \<^verbatim>\<open>kMeans\<close>, each paired with the inertia
  \<^verbatim>\<open>calculateInertia\<close> gives it; each run draws from the random source where the one
  before stopped.
\<close>

fun runsFrom ::
  "rng \<Rightarrow> point list \<Rightarrow> int \<Rightarrow> int \<Rightarrow> jsnum \<Rightarrow> nat \<Rightarrow> nat
     \<Rightarrow> (error + (cluster list \<times> jsnum) list \<times> nat) option"
where
  "runsFrom r data k maxIterations tolerance n 0 = Some (Inr ([], n))"
| "runsFrom r data k maxIterations tolerance n (Suc m) =
     (case kMeans r data k (Some maxIterations) (Some tolerance) n of
        None \<Rightarrow> None
      | Some (Inl e) \<Rightarrow> Some (Inl e)
      | Some (Inr (clusters, n1)) \<Rightarrow>
          (case calculateInertia clusters of
             Inl e \<Rightarrow> Some (Inl e)
           | Inr x \<Rightarrow>
               (case runsFrom r data k maxIterations tolerance n1 m of
                  None \<Rightarrow> None
                | Some (Inl e) \<Rightarrow> Some (Inl e)
                | Some (Inr (rest, n2)) \<Rightarrow> Some (Inr ((clusters, x) # rest, n2)))))"

text \<open>One step of the selection: a strictly lower inertia replaces the best so far.\<close>

fun keepBest :: "cluster list \<times> jsnum \<Rightarrow> cluster list \<times> jsnum \<Rightarrow> cluster list \<times> jsnum" where
  "keepBest (bestClusters, bestInertia) (clusters, x) =
     (if js_lt x bestInertia then (clusters, x) else (bestClusters, bestInertia))"

section \<open>Rounding to binary64\<close>

lemma ilog2_bounds: "1 \<le> n \<Longrightarrow> 2 ^ ilog2 n \<le> n \<and> n < 2 ^ Suc (ilog2 n)"
proof (induction n rule: ilog2.induct)
  case (1 n)
  show ?case
  proof (cases "n < 2")
    case True
    with "1.prems" have "n = 1" by simp
    then show ?thesis by (simp add: ilog2.simps)
  next
    case False
    then have "1 \<le> n div 2" by simp
    from "1.IH"[OF False this] have "2 ^ ilog2 (n div 2) \<le> n div 2" "n div 2 < 2 ^ Suc (ilog2 (n div 2))" by simp_all
    moreover have "ilog2 n = Suc (ilog2 (n div 2))" using False by (subst ilog2.simps) simp
    ultimately show ?thesis by simp linarith
  qed
qed

lemma p2_le_iff [simp]: "(2::real) powi m \<le> 2 powi n \<longleftrightarrow> m \<le> n"
proof
  assume a: "(2::real) powi m \<le> 2 powi n"
  show "m \<le> n"
  proof (rule ccontr)
    assume "\<not> m \<le> n"
    then have "n < m" by simp
    then have "(2::real) powi n < 2 powi m" by (rule power_int_strict_increasing) simp
    with a show False by simp
  qed
next
  assume "m \<le> n"
  then show "(2::real) powi m \<le> 2 powi n" by (rule power_int_increasing) simp
qed

lemma p2_less_iff [simp]: "(2::real) powi m < 2 powi n \<longleftrightarrow> m < n"
  using p2_le_iff[of n m] by (simp only: not_le [symmetric])

lemma expo_bounds:
  assumes "x \<noteq> 0"
  shows "2 powi expo x \<le> \<bar>x\<bar> \<and> \<bar>x\<bar> < 2 powi (expo x + 1)"
proof (cases "1 \<le> \<bar>x\<bar>")
  case True
  let ?n = "nat \<lfloor>\<bar>x\<bar>\<rfloor>"
  have n: "1 \<le> ?n" using True by linarith
  from ilog2_bounds[OF n] have a: "2 ^ ilog2 ?n \<le> ?n" and b: "?n < 2 ^ Suc (ilog2 ?n)" by simp_all
  have e: "expo x = int (ilog2 ?n)" using True by (simp add: expo_def)
  from a have "(2::real) ^ ilog2 ?n \<le> real ?n"
    by (metis of_nat_le_iff of_nat_numeral of_nat_power)
  also have "real ?n \<le> \<bar>x\<bar>" using True by linarith
  finally have 1: "2 powi expo x \<le> \<bar>x\<bar>" by (simp add: e)
  from b have "?n + 1 \<le> 2 ^ Suc (ilog2 ?n)" by simp
  then have "real (?n + 1) \<le> (2::real) ^ Suc (ilog2 ?n)"
    by (metis of_nat_le_iff of_nat_numeral of_nat_power)
  moreover have "\<bar>x\<bar> < real (?n + 1)" using True by linarith
  ultimately have "\<bar>x\<bar> < (2::real) ^ Suc (ilog2 ?n)" by linarith
  also have "(2::real) ^ Suc (ilog2 ?n) = 2 powi (expo x + 1)"
    by (simp add: e power_int_add)
  finally show ?thesis using 1 by simp
next
  case False
  define y where "y = 1 / \<bar>x\<bar>"
  have y: "1 < y" using False assms by (simp add: y_def)
  let ?m = "nat (\<lceil>y\<rceil> - 1)"
  have m: "1 \<le> ?m" using y by linarith
  from ilog2_bounds[OF m] have a: "2 ^ ilog2 ?m \<le> ?m" and b: "?m < 2 ^ Suc (ilog2 ?m)" by simp_all
  have e: "expo x = - int (ilog2 ?m) - 1" using False by (simp add: expo_def y_def)
  from a have "(2::real) ^ ilog2 ?m \<le> real ?m"
    by (metis of_nat_le_iff of_nat_numeral of_nat_power)
  also have "real ?m < y" using y by linarith
  finally have 1: "(2::real) ^ ilog2 ?m < y" .
  from b have "?m + 1 \<le> 2 ^ Suc (ilog2 ?m)" by simp
  then have "real (?m + 1) \<le> (2::real) ^ Suc (ilog2 ?m)"
    by (metis of_nat_le_iff of_nat_numeral of_nat_power)
  moreover have "y \<le> real (?m + 1)" using y by linarith
  ultimately have 2: "y \<le> (2::real) ^ Suc (ilog2 ?m)" by linarith
  have xp: "0 < \<bar>x\<bar>" using assms by simp
  have xy: "\<bar>x\<bar> = 1 / y" by (simp add: y_def)
  have "2 powi expo x = 1 / (2::real) ^ Suc (ilog2 ?m)"
    by (simp add: e power_int_diff power_int_minus field_simps)
  also have "\<dots> \<le> 1 / y" using 2 y by (simp add: frac_le)
  finally have A: "2 powi expo x \<le> \<bar>x\<bar>" by (simp add: xy)
  have "1 / y < 1 / (2::real) ^ ilog2 ?m" using 1 by (simp add: frac_less2)
  also have "1 / (2::real) ^ ilog2 ?m = 2 powi (expo x + 1)"
    by (simp add: e power_int_minus field_simps)
  finally have B: "\<bar>x\<bar> < 2 powi (expo x + 1)" by (simp add: xy)
  from A B show ?thesis by simp
qed

lemma expo_unique:
  assumes "2 powi e \<le> \<bar>x\<bar>" "\<bar>x\<bar> < 2 powi (e + 1)"
  shows "expo x = e"
proof -
  have "0 < (2::real) powi e" by simp
  with assms(1) have "0 < \<bar>x\<bar>" by linarith
  then have "x \<noteq> 0" by simp
  from expo_bounds[OF this] have a: "2 powi expo x \<le> \<bar>x\<bar>" and b: "\<bar>x\<bar> < 2 powi (expo x + 1)" by simp_all
  have "(2::real) powi e < 2 powi (expo x + 1)" using assms(1) b by linarith
  then have 1: "e < expo x + 1" by simp
  have "(2::real) powi expo x < 2 powi (e + 1)" using assms(2) a by linarith
  then have 2: "expo x < e + 1" by simp
  from 1 2 show ?thesis by simp
qed

lemma expo_minus [simp]: "expo (- x) = expo x"
  by (simp add: expo_def)

lemma expo_mono:
  assumes "x \<noteq> 0" "\<bar>x\<bar> \<le> \<bar>y\<bar>"
  shows "expo x \<le> expo y"
proof -
  have y: "y \<noteq> 0" using assms by auto
  from expo_bounds[OF assms(1)] expo_bounds[OF y]
  have "(2::real) powi expo x < 2 powi (expo y + 1)" using assms(2) by linarith
  then show ?thesis by simp
qed

lemma ulp_pos [simp]: "0 < ulp x"
  by (simp add: ulp_def)

lemma ulp_nonneg [simp]: "0 \<le> ulp x"
  by (simp add: ulp_def)

lemma ulp_nonzero [simp]: "ulp x \<noteq> 0"
  by (simp add: ulp_def)

lemma ulp_minus [simp]: "ulp (- x) = ulp x"
  by (simp add: ulp_def)

lemma rne_cases:
  "(rne q = \<lfloor>q\<rfloor> \<and> q - of_int \<lfloor>q\<rfloor> \<le> 1 / 2) \<or> (rne q = \<lfloor>q\<rfloor> + 1 \<and> 1 / 2 \<le> q - of_int \<lfloor>q\<rfloor>)"
  by (auto simp: rne_def Let_def)

lemma rne_of_int [simp]: "rne (of_int k) = k"
  by (simp add: rne_def)

lemma rne_0 [simp]: "rne 0 = 0"
  using rne_of_int[of 0] by simp

lemma rne_near: "\<bar>of_int (rne q) - q\<bar> \<le> 1 / 2"
  using rne_cases[of q] by (auto; linarith)

lemma rne_mono:
  assumes "p \<le> q"
  shows "rne p \<le> rne q"
proof (cases "\<lfloor>p\<rfloor> = \<lfloor>q\<rfloor>")
  case True
  with assms show ?thesis by (auto simp: rne_def Let_def)
next
  case False
  with assms have "\<lfloor>p\<rfloor> < \<lfloor>q\<rfloor>" by (simp add: floor_mono order.not_eq_order_implies_strict)
  then have "\<lfloor>p\<rfloor> + 1 \<le> \<lfloor>q\<rfloor>" by simp
  moreover have "rne p \<le> \<lfloor>p\<rfloor> + 1" using rne_cases[of p] by auto
  moreover have "\<lfloor>q\<rfloor> \<le> rne q" using rne_cases[of q] by auto
  ultimately show ?thesis by linarith
qed

lemma rne_minus: "rne (- q) = - rne q"
proof (cases "q \<in> \<int>")
  case True
  then obtain k where "q = of_int k" by (auto elim: Ints_cases)
  then have "rne (- q) = rne (of_int (- k))" by simp
  also have "\<dots> = - k" by (rule rne_of_int)
  finally show ?thesis using \<open>q = of_int k\<close> by simp
next
  case False
  then have ne: "q \<noteq> of_int \<lfloor>q\<rfloor>" by (metis Ints_of_int)
  then have f: "\<lfloor>- q\<rfloor> = - \<lfloor>q\<rfloor> - 1"
    using ceiling_altdef[of q] by (simp add: ceiling_def)
  show ?thesis using False
    by (auto simp: rne_def Let_def f)
qed

lemma round64_rval:
  "round64 x = (if 2 ^ 1024 \<le> rval x then PInf else if rval x \<le> - (2 ^ 1024) then NInf else Fin (rval x))"
  by (simp add: round64_def Let_def)

lemma rval_minus: "rval (- x) = - rval x"
  by (simp add: rval_def rne_minus)

lemma rval_0 [simp]: "rval 0 = 0"
  by (simp add: rval_def)

lemma rne_nonneg: "0 \<le> q \<Longrightarrow> 0 \<le> rne q"
  using rne_mono[of 0 q] rne_of_int[of 0] by simp

lemma rval_nonneg: "0 \<le> x \<Longrightarrow> 0 \<le> rval x"
  unfolding rval_def by (intro mult_nonneg_nonneg) (simp_all add: rne_nonneg)

lemma ulp_eq: "ulp x = 2 powi (max (expo x) (- 1022)) / 2 ^ 52"
  by (simp add: ulp_def power_int_diff)

text \<open>Below the top of its binade, and at least its bottom when it is normal.\<close>

lemma rval_upper:
  assumes "0 \<le> x"
  shows "rval x \<le> 2 powi (max (expo x) (- 1022) + 1)"
proof -
  let ?E = "max (expo x) (- 1022)"
  have "x \<le> 2 powi (?E + 1)"
  proof (cases "x = 0")
    case False
    from expo_bounds[OF False] assms have "x < 2 powi (expo x + 1)" by simp
    also have "\<dots> \<le> 2 powi (?E + 1)" by simp
    finally show ?thesis by simp
  qed simp
  then have "x / ulp x \<le> 2 powi (?E + 1) / ulp x" by (rule divide_right_mono) simp
  also have "2 powi (?E + 1) / ulp x = of_int (2 ^ 53)"
    by (simp add: ulp_eq power_int_add)
  finally have "rne (x / ulp x) \<le> rne (of_int (2 ^ 53))" by (rule rne_mono)
  then have "rne (x / ulp x) \<le> 2 ^ 53" by (simp only: rne_of_int)
  then have "real_of_int (rne (x / ulp x)) \<le> real_of_int (2 ^ 53)" by (simp only: of_int_le_iff)
  then have "real_of_int (rne (x / ulp x)) \<le> 2 ^ 53" by simp
  then have "rval x \<le> 2 ^ 53 * ulp x" by (simp add: rval_def)
  also have "2 ^ 53 * ulp x = 2 powi (?E + 1)" by (simp add: ulp_eq power_int_add)
  finally show ?thesis .
qed

lemma rval_lower:
  assumes "0 < x" "- 1022 \<le> expo x"
  shows "2 powi (expo x) \<le> rval x"
proof -
  have E: "max (expo x) (- 1022) = expo x" using assms by simp
  have x: "x \<noteq> 0" using assms by simp
  from expo_bounds[OF x] assms have "2 powi (expo x) \<le> x" by simp
  then have "2 powi (expo x) / ulp x \<le> x / ulp x" by (rule divide_right_mono) simp
  moreover have "2 powi (expo x) / ulp x = of_int (2 ^ 52)" by (simp add: ulp_eq E)
  ultimately have "rne (of_int (2 ^ 52)) \<le> rne (x / ulp x)" using rne_mono by metis
  then have "2 ^ 52 \<le> rne (x / ulp x)" by (simp only: rne_of_int)
  then have "real_of_int (2 ^ 52) \<le> real_of_int (rne (x / ulp x))" by (simp only: of_int_le_iff)
  then have "2 ^ 52 \<le> real_of_int (rne (x / ulp x))" by simp
  then have "2 ^ 52 * ulp x \<le> rval x" by (simp add: rval_def)
  moreover have "2 ^ 52 * ulp x = 2 powi (expo x)" by (simp add: ulp_eq E)
  ultimately show ?thesis by simp
qed

lemma rval_mono_nonneg:
  assumes "0 \<le> x" "x \<le> y"
  shows "rval x \<le> rval y"
proof (cases "x = 0")
  case True
  with assms rval_nonneg[of y] show ?thesis by simp
next
  case False
  with assms have xp: "0 < x" and yp: "0 < y" by simp_all
  let ?Ex = "max (expo x) (- 1022)" and ?Ey = "max (expo y) (- 1022)"
  have "expo x \<le> expo y" using expo_mono[of x y] False assms by simp
  then have le: "?Ex \<le> ?Ey" by simp
  show ?thesis
  proof (cases "?Ex = ?Ey")
    case True
    then have u: "ulp x = ulp y" by (simp add: ulp_def)
    have "x / ulp y \<le> y / ulp y" using assms(2) by (rule divide_right_mono) simp
    then have "rne (x / ulp y) \<le> rne (y / ulp y)" by (rule rne_mono)
    then have "real_of_int (rne (x / ulp y)) \<le> real_of_int (rne (y / ulp y))" by simp
    then show ?thesis by (simp add: rval_def u)
  next
    case False
    with le have lt: "?Ex < ?Ey" by (simp only: less_le not_False_eq_True simp_thms)
    then have Ey: "?Ey = expo y" and n: "- 1022 \<le> expo y"
      by (auto simp: max_def split: if_splits)
    have "rval x \<le> 2 powi (?Ex + 1)" using assms by (intro rval_upper) simp
    also have "\<dots> \<le> 2 powi (expo y)"
    proof -
      from lt Ey have "?Ex + 1 \<le> expo y" by linarith
      then show ?thesis by (simp only: p2_le_iff)
    qed
    also have "\<dots> \<le> rval y" using yp n by (rule rval_lower)
    finally show ?thesis .
  qed
qed

lemma rval_mono:
  assumes "x \<le> y"
  shows "rval x \<le> rval y"
proof -
  consider "0 \<le> x" | "x < 0" "0 \<le> y" | "y < 0" using assms by linarith
  then show ?thesis
  proof cases
    case 1
    then show ?thesis using assms by (rule rval_mono_nonneg)
  next
    case 2
    have "0 \<le> rval (- x)" using 2 by (intro rval_nonneg) simp
    then have "rval x \<le> 0" by (simp add: rval_minus)
    also have "0 \<le> rval y" using 2 by (intro rval_nonneg)
    finally show ?thesis .
  next
    case 3
    have "rval (- y) \<le> rval (- x)" using 3 assms by (intro rval_mono_nonneg) simp_all
    then show ?thesis by (simp add: rval_minus)
  qed
qed

lemma rval_exact:
  assumes "\<bar>m\<bar> < 2 ^ 53" "- 1074 \<le> e"
  shows "rval (of_int m * 2 powi e) = of_int m * 2 powi e"
proof (cases "m = 0")
  case False
  let ?v = "real_of_int m * 2 powi e"
  let ?E = "max (expo ?v) (- 1022)"
  have v: "?v \<noteq> 0" using False by simp
  have "real_of_int \<bar>m\<bar> < real_of_int (2 ^ 53)" using assms(1) by (simp only: of_int_less_iff)
  then have "\<bar>real_of_int m\<bar> < 2 ^ 53" by simp
  then have "\<bar>?v\<bar> < 2 ^ 53 * 2 powi e" by (simp add: abs_mult)
  also have "\<dots> = 2 powi (e + 53)" by (simp add: power_int_add)
  finally have "2 powi (expo ?v) < (2::real) powi (e + 53)" using expo_bounds[OF v] by linarith
  then have "expo ?v < e + 53" by (simp only: p2_less_iff)
  with assms(2) have d: "0 \<le> e - (?E - 52)" by simp
  define d where "d = nat (e - (?E - 52))"
  have e: "e = int d + (?E - 52)" using d by (simp add: d_def)
  define u where "u = ulp ?v"
  have up: "0 < u" by (simp add: u_def)
  have "(2::real) powi e = 2 ^ d * 2 powi (?E - 52)" by (subst e) (simp add: power_int_add)
  then have pe: "(2::real) powi e = 2 ^ d * u" by (simp add: ulp_def u_def)
  have vu: "?v = of_int (m * 2 ^ d) * u" by (simp add: pe)
  have "?v / u = of_int (m * 2 ^ d)" using up by (subst vu) simp
  then have "rne (?v / u) = m * 2 ^ d" by (simp only: rne_of_int)
  then have "of_int (rne (?v / u)) * u = of_int (m * 2 ^ d) * u" by simp
  then have "rval ?v = of_int (m * 2 ^ d) * u" by (simp only: rval_def u_def)
  also have "\<dots> = ?v" by (rule vu [symmetric])
  finally show ?thesis .
qed simp





lemma round64_not_NaN [simp]: "round64 x \<noteq> NaN"
  by (simp add: round64_rval)

lemma round64_Fin_iff: "round64 x = Fin v \<longleftrightarrow> v = rval x \<and> \<bar>rval x\<bar> < 2 ^ 1024"
  by (auto simp: round64_rval)

lemma isDouble_iff: "isDouble x \<longleftrightarrow> rval x = x \<and> \<bar>x\<bar> < 2 ^ 1024"
  by (auto simp: isDouble_def round64_Fin_iff)


lemma isDouble_repr:
  assumes "\<bar>m\<bar> < 2 ^ 53" "- 1074 \<le> e" "e \<le> 971"
  shows "isDouble (of_int m * 2 powi e)"
proof -
  have "real_of_int \<bar>m\<bar> < real_of_int (2 ^ 53)" using assms(1) by (simp only: of_int_less_iff)
  then have m: "\<bar>real_of_int m\<bar> < 2 ^ 53" by simp
  have "(2::real) powi e \<le> 2 powi 971" using assms(3) by (simp only: p2_le_iff)
  then have "\<bar>real_of_int m * 2 powi e\<bar> \<le> \<bar>real_of_int m\<bar> * 2 powi 971"
    by (simp add: abs_mult mult_left_mono)
  also have "\<dots> < 2 ^ 53 * 2 powi 971" using m by (simp add: mult_strict_right_mono)
  also have "\<dots> = 2 ^ 1024" by simp
  finally show ?thesis using rval_exact[OF assms(1,2)] by (simp add: isDouble_iff)
qed

lemma isDouble_of_int: "\<bar>m\<bar> < 2 ^ 53 \<Longrightarrow> isDouble (of_int m)"
  using isDouble_repr[of m 0] by simp

lemma isDouble_of_nat: "n < 2 ^ 53 \<Longrightarrow> isDouble (real n)"
  using isDouble_of_int[of "int n"] by simp

lemma isDouble_0 [simp]: "isDouble 0"
  using isDouble_of_int[of 0] by simp

lemma round64_0 [simp]: "round64 0 = Fin 0"
  using isDouble_0 by (simp only: isDouble_def)

lemma isDouble_minus [simp]: "isDouble (- x) \<longleftrightarrow> isDouble x"
  by (auto simp: isDouble_iff rval_minus)



lemma rval_near: "\<bar>rval x - x\<bar> \<le> ulp x / 2"
proof -
  have "rval x - x = (of_int (rne (x / ulp x)) - x / ulp x) * ulp x"
    by (simp add: rval_def algebra_simps)
  then have "\<bar>rval x - x\<bar> = \<bar>of_int (rne (x / ulp x)) - x / ulp x\<bar> * ulp x"
    by (simp add: abs_mult)
  also have "\<dots> \<le> 1 / 2 * ulp x"
    using rne_near[of "x / ulp x"] by (intro mult_right_mono) simp_all
  finally show ?thesis by simp
qed


lemma round64_underflow:
  assumes "\<bar>x\<bar> < 2 powi (- 1075)"
  shows "round64 x = Fin 0"
proof (cases "x = 0")
  case False
  from expo_bounds[OF False] assms have "(2::real) powi expo x < 2 powi (- 1075)" by linarith
  then have "expo x < - 1075" by (simp only: p2_less_iff)
  then have u: "ulp x = 2 powi (- 1074)" by (simp add: ulp_def)
  have "\<bar>x\<bar> / ulp x < 2 powi (- 1075) / ulp x" using assms by (intro divide_strict_right_mono) simp_all
  also have "2 powi (- 1075) / ulp x = 1 / 2" by (simp add: u power_int_minus field_simps)
  finally have "\<bar>x / ulp x\<bar> < 1 / 2" by simp
  with rne_near[of "x / ulp x"] have "\<bar>real_of_int (rne (x / ulp x))\<bar> < 1" by linarith
  then have "rne (x / ulp x) = 0" by linarith
  then have "rval x = 0" by (simp add: rval_def)
  then show ?thesis by (simp add: round64_rval)
qed simp

text \<open>A double below 1 is at most \<open>1 - 2\<^sup>-\<^sup>5\<^sup>3\<close>.\<close>

lemma isDouble_below_one:
  assumes "isDouble r" "r < 1"
  shows "r \<le> 1 - 1 / 2 ^ 53"
proof (rule ccontr)
  assume "\<not> r \<le> 1 - 1 / 2 ^ 53"
  then have lo: "1 - 1 / 2 ^ 53 < r" by simp
  then have "2 powi (- 1) \<le> \<bar>r\<bar>" "\<bar>r\<bar> < 2 powi (- 1 + 1)" using assms(2) by simp_all
  then have "expo r = - 1" by (rule expo_unique)
  then have u: "ulp r = 1 / 2 ^ 53" by (simp add: ulp_def power_int_minus field_simps)
  from assms(1) have "rval r = r" by (simp add: isDouble_iff)
  then have "real_of_int (rne (r / ulp r)) = r * 2 ^ 53" by (simp add: rval_def u field_simps)
  moreover have "2 ^ 53 - 1 < r * 2 ^ 53" using lo by (simp add: field_simps)
  moreover have "r * 2 ^ 53 < 2 ^ 53" using assms(2) by simp
  ultimately have "real_of_int (2 ^ 53 - 1) < real_of_int (rne (r / ulp r))"
    "real_of_int (rne (r / ulp r)) < real_of_int (2 ^ 53)" by simp_all
  then have "2 ^ 53 - 1 < rne (r / ulp r)" "rne (r / ulp r) < 2 ^ 53" by (simp_all only: of_int_less_iff)
  then show False by simp
qed

text \<open>
  The product of a double in \<open>[0, 1)\<close> and an array length stays below the length after
  rounding, so its floor is an index of the array.
\<close>

lemma round64_scale_below:
  assumes "isDouble r" "0 \<le> r" "r < 1" "1 \<le> n" "n < 2 ^ 53"
  shows "\<exists>v. round64 (r * real n) = Fin v \<and> 0 \<le> v \<and> v < real n"
proof -
  define y0 where "y0 = real n - real n / 2 ^ 53"
  define e where "e = expo (real n)"
  have n0: "real n \<noteq> 0" using assms(4) by simp
  from expo_bounds[OF n0] have lo: "2 powi e \<le> real n" and hi: "real n < 2 powi (e + 1)"
    by (simp_all add: e_def)
  have "(2::real) powi 0 < 2 powi (e + 1)" using hi assms(4) by simp
  then have e0: "0 \<le> e" by (simp only: p2_less_iff)
  have y0pos: "0 < y0" using assms(4) by (simp add: y0_def field_simps)
  have y0n: "y0 < real n" using assms(4) by (simp add: y0_def)
  have "rval y0 < real n"
  proof (cases "real n = 2 powi e")
    case True
    have "y0 = of_int (2 ^ 53 - 1) * 2 powi (e - 53)"
      by (simp add: y0_def True power_int_diff field_simps)
    moreover have "rval (of_int (2 ^ 53 - 1) * 2 powi (e - 53)) = of_int (2 ^ 53 - 1) * 2 powi (e - 53)"
      using e0 by (intro rval_exact) simp_all
    ultimately have "rval y0 = y0" by simp
    with y0n show ?thesis by simp
  next
    case False
    with lo have lt: "2 powi e < real n" by simp
    have "expo y0 \<le> e" unfolding e_def using y0pos y0n by (intro expo_mono) simp_all
    then have "max (expo y0) (- 1022) - 52 \<le> e - 52" using e0 by simp
    then have u: "ulp y0 \<le> 2 powi (e - 52)" unfolding ulp_def by (simp only: p2_le_iff)
    have "rval y0 \<le> y0 + ulp y0 / 2" using rval_near[of y0] by linarith
    also have "\<dots> \<le> y0 + 2 powi (e - 52) / 2" using u by simp
    also have "\<dots> = real n - real n / 2 ^ 53 + 2 powi e / 2 ^ 53"
      by (simp add: y0_def power_int_diff)
    also have "\<dots> < real n" using lt by (simp add: divide_strict_right_mono)
    finally show ?thesis .
  qed
  moreover have "r * real n \<le> y0"
  proof -
    have "r * real n \<le> (1 - 1 / 2 ^ 53) * real n"
      using isDouble_below_one[OF assms(1,3)] by (intro mult_right_mono) simp_all
    then show ?thesis by (simp add: y0_def algebra_simps)
  qed
  then have "rval (r * real n) \<le> rval y0" by (rule rval_mono)
  ultimately have lt: "rval (r * real n) < real n" by linarith
  have ge: "0 \<le> rval (r * real n)" using assms(2) by (intro rval_nonneg) simp
  have "real n < 2 ^ 53" using assms(5) by (metis of_nat_less_iff of_nat_numeral of_nat_power)
  also have "(2::real) ^ 53 < 2 ^ 1024" by simp
  finally have "\<bar>rval (r * real n)\<bar> < 2 ^ 1024" using lt ge by simp
  then have "round64 (r * real n) = Fin (rval (r * real n))" by (simp add: round64_Fin_iff)
  with lt ge show ?thesis by simp
qed

text \<open>Evaluation: what rounds to itself, and what overflows.\<close>

lemma round64_exact: "isDouble x \<Longrightarrow> round64 x = Fin x"
  by (simp add: isDouble_def)




lemma isDouble_1 [simp]: "isDouble 1"
  using isDouble_of_int[of 1] by simp

lemma isDouble_half [simp]: "isDouble (1 / 2)"
  using isDouble_repr[of 1 "- 1"] by (simp add: power_int_minus field_simps)


lemma round64_1 [simp]: "round64 1 = Fin 1"
  by (simp add: round64_exact)



section \<open>Points and distances\<close>

lemma isReal_iff: "isReal x \<longleftrightarrow> (\<exists>a. x = Fin a)"
  by (cases x) auto

lemma isReal_toReal [simp]: "isReal x \<Longrightarrow> Fin (toReal x) = x"
  by (cases x) auto

lemma realPoint_Nil [simp]: "realPoint []"
  by (simp add: realPoint_def)

lemma realPoint_Cons [simp]: "realPoint (x # xs) \<longleftrightarrow> isReal x \<and> realPoint xs"
  by (simp add: realPoint_def)

lemma realData_Nil [simp]: "realData []"
  by (simp add: realData_def)

lemma realData_Cons [simp]: "realData (p # ps) \<longleftrightarrow> realPoint p \<and> realData ps"
  by (simp add: realData_def)

lemma realData_append [simp]: "realData (ps @ qs) \<longleftrightarrow> realData ps \<and> realData qs"
  by (simp add: realData_def)

lemma realData_mem: "realData ps \<Longrightarrow> p \<in> set ps \<Longrightarrow> realPoint p"
  by (simp add: realData_def list_all_iff)


lemma uniformDim_Nil [simp]: "uniformDim d []"
  by (simp add: uniformDim_def)

lemma uniformDim_Cons [simp]: "uniformDim d (p # ps) \<longleftrightarrow> length p = d \<and> uniformDim d ps"
  by (simp add: uniformDim_def)

lemma uniformDim_append [simp]: "uniformDim d (ps @ qs) \<longleftrightarrow> uniformDim d ps \<and> uniformDim d qs"
  by (simp add: uniformDim_def)


lemma sqDistance_nonneg [simp]: "0 \<le> sqDistance p q"
  unfolding sqDistance_def by (rule sum_list_nonneg) auto

lemma sqDistance_Nil [simp]: "sqDistance [] q = 0" "sqDistance p [] = 0"
  by (simp_all add: sqDistance_def)

lemma sqDistance_Cons [simp]:
  "sqDistance (x # p) (y # q) = (toReal x - toReal y)\<^sup>2 + sqDistance p q"
  by (simp add: sqDistance_def)

lemma distance_nonneg [simp]: "0 \<le> distance p q"
  by (simp add: distance_def)

lemma distance_pow2 [simp]: "(distance p q)\<^sup>2 = sqDistance p q"
  by (simp add: distance_def)


lemma isReal_isNumber: "isReal x \<Longrightarrow> isNumber x"
  by (cases x) auto

lemma numPoint_Nil [simp]: "numPoint []"
  by (simp add: numPoint_def)

lemma numPoint_Cons [simp]: "numPoint (x # xs) \<longleftrightarrow> isNumber x \<and> numPoint xs"
  by (simp add: numPoint_def)

lemma numData_Nil [simp]: "numData []"
  by (simp add: numData_def)

lemma numData_Cons [simp]: "numData (p # ps) \<longleftrightarrow> numPoint p \<and> numData ps"
  by (simp add: numData_def)


lemma realPoint_numPoint: "realPoint p \<Longrightarrow> numPoint p"
  by (induction p) (auto simp: isReal_isNumber)

lemma realData_numData: "realData ps \<Longrightarrow> numData ps"
  by (induction ps) (auto simp: realPoint_numPoint)

text \<open>The distance function returns the formula evaluated in binary64.\<close>

lemma foldl_sumSq64:
  "length p = length q \<Longrightarrow>
   foldl (\<lambda>sum (v, w). js_add sum (js_pow2 (js_sub v w))) s (zip p q) = sumSq64 s p q"
  by (induction p q arbitrary: s rule: list_induct2) simp_all


lemma euclideanDistance_Inr_eq:
  "euclideanDistance p q = Inr d \<Longrightarrow> d = distance64 p q \<and> length p = length q"
  by (auto simp: euclideanDistance_def distance64_def foldl_sumSq64 split: if_splits)

lemma euclideanDistance_ok:
  "length p = length q \<Longrightarrow> \<exists>d. euclideanDistance p q = Inr d"
  by (simp add: euclideanDistance_def)

lemma euclideanDistance_Inr:
  "euclideanDistance p q = Inr d \<Longrightarrow> length p = length q"
  by (simp add: euclideanDistance_def split: if_splits)

section \<open>Distances and weights\<close>



lemma isWeight_isNumber: "isWeight x \<Longrightarrow> isNumber x"
  by (cases x) auto

lemma isWeight_0 [simp]: "isWeight (Fin 0)"
  by simp








section \<open>Random indices\<close>

lemma random_index:
  assumes "rng_ok r" "1 \<le> len" "len < 2 ^ 53"
  shows "\<exists>j<len. js_floor (js_mul (Fin (r n)) (Fin (real len))) = Fin (real j)"
proof -
  from assms(1) have r: "isDouble (r n)" "0 \<le> r n" "r n < 1" by (auto simp: rng_ok_def)
  from round64_scale_below[OF r assms(2,3)] obtain v where
    v: "round64 (r n * real len) = Fin v" "0 \<le> v" "v < real len" by blast
  have "\<lfloor>v\<rfloor> < int len" using v(3) by (simp add: floor_less_iff)
  moreover have f0: "0 \<le> \<lfloor>v\<rfloor>" using v(2) by simp
  ultimately have "nat \<lfloor>v\<rfloor> < len" by (simp add: nat_less_iff)
  moreover from f0 have "real_of_int \<lfloor>v\<rfloor> = real (nat \<lfloor>v\<rfloor>)" by simp
  ultimately have "nat \<lfloor>v\<rfloor> < len" "real_of_int \<lfloor>v\<rfloor> = real (nat \<lfloor>v\<rfloor>)" by simp_all
  with v(1) show ?thesis by auto
qed

lemma randomIndex_range:
  assumes "rng_ok r" "1 \<le> len" "len < 2 ^ 53"
  shows "\<exists>j<len. randomIndex r n len = Fin (real j)"
  using random_index[OF assms] by (simp add: randomIndex_def)

lemma readPoint_nat [simp]: "j < length data \<Longrightarrow> readPoint data (Fin (real j)) = Inr (data ! j)"
  by (simp add: readPoint_def)

lemma readPoint_random:
  assumes "rng_ok r" "data \<noteq> []" "length data < 2 ^ 53"
  shows "\<exists>c\<in>set data. readPoint data (randomIndex r n (length data)) = Inr c"
proof -
  from assms(2) have "1 \<le> length data" by (cases data) auto
  from randomIndex_range[OF assms(1) this assms(3), of n] obtain j where
    "j < length data" "randomIndex r n (length data) = Fin (real j)" by blast
  then show ?thesis by auto
qed


section \<open>Seeding\<close>







lemma threshold_NaN: "js_mul (Fin 0) PInf = NaN"
  by simp





text \<open>With k = 1 the loop is never entered: no hypothesis on the coordinates is needed.\<close>

lemma initialize_one:
  assumes "rng_ok r" "data \<noteq> []" "length data < 2 ^ 53"
  shows "\<exists>c\<in>set data. initializeCentroidsWithKMeansPlusPlus r data 1 n = Some (Inr ([c], Suc n))"
proof -
  from readPoint_random[OF assms, of n] obtain c where
    c: "c \<in> set data" "readPoint data (randomIndex r n (length data)) = Inr c" by auto
  then show ?thesis
    by (auto simp: initializeCentroidsWithKMeansPlusPlus_def seedLoop.simps)
qed




section \<open>Seeding that never returns\<close>





section \<open>Properties of assignment\<close>

lemma nearestScan_range:
  "nearestScan p cs i ni sd = Inr j \<Longrightarrow> j = ni \<or> (i \<le> j \<and> j < i + length cs)"
proof (induction cs arbitrary: i ni sd)
  case Nil
  then show ?case by simp
next
  case (Cons c cs)
  then show ?case
    by (fastforce split: sum.splits if_splits)
qed

lemma nearestCentroid_range:
  "nearestCentroid p cs = Inr j \<Longrightarrow> j < length cs"
  by (cases cs) (auto simp: nearestCentroid_def split: sum.splits dest!: nearestScan_range)

lemma length_pushPoint [simp]: "length (pushPoint cl i p) = length cl"
  by (simp add: pushPoint_def)

lemma centroid_update:
  "map centroid (cl[i := (cl ! i)\<lparr>points := points (cl ! i) @ [p]\<rparr>]) = map centroid cl"
proof (induction cl arbitrary: i)
  case Nil
  then show ?case by simp
next
  case (Cons c cl)
  then show ?case by (cases i) auto
qed

lemma centroid_pushPoint [simp]: "map centroid (pushPoint cl i p) = map centroid cl"
  by (simp add: pushPoint_def centroid_update)

lemma nth_pushPoint:
  "j < length cl \<Longrightarrow> pushPoint cl i p ! j =
     (if j = i then (cl ! j)\<lparr>points := points (cl ! j) @ [p]\<rparr> else cl ! j)"
  by (simp add: pushPoint_def nth_list_update)

lemma mset_points_update:
  "i < length cl \<Longrightarrow>
   mset (concat (map points (cl[i := (cl ! i)\<lparr>points := points (cl ! i) @ [p]\<rparr>])))
     = mset (concat (map points cl)) + {#p#}"
proof (induction cl arbitrary: i)
  case Nil
  then show ?case by simp
next
  case (Cons c cl)
  then show ?case by (cases i) auto
qed

lemma mset_pushPoint:
  "i < length cl \<Longrightarrow>
   mset (concat (map points (pushPoint cl i p))) = mset (concat (map points cl)) + {#p#}"
  by (simp add: pushPoint_def mset_points_update)

lemma assignLoop_partition:
  "assignLoop ps cs cl = Inr cl' \<Longrightarrow> length cl = length cs \<Longrightarrow>
   length cl' = length cl \<and> map centroid cl' = map centroid cl \<and>
   mset (concat (map points cl')) = mset (concat (map points cl)) + mset ps"
proof (induction ps arbitrary: cl)
  case Nil
  then show ?case by simp
next
  case (Cons p ps)
  from Cons.prems(1) obtain j where j: "nearestCentroid p cs = Inr j"
    and run: "assignLoop ps cs (pushPoint cl j p) = Inr cl'"
    by (auto split: sum.splits)
  from j have "j < length cl" using Cons.prems(2) by (auto dest: nearestCentroid_range)
  with Cons.IH[OF run] Cons.prems(2) show ?case
    by (simp add: mset_pushPoint)
qed

lemma assign_partition:
  assumes "assignPointsToCentroidClusters data cs = Inr cl"
  shows "length cl = length cs \<and> map centroid cl = cs \<and>
         mset (concat (map points cl)) = mset data"
proof -
  let ?init = "map (\<lambda>c. \<lparr>centroid = c, points = []\<rparr>) cs"
  have "concat (map points ?init) = []" by (induction cs) auto
  moreover have "map centroid ?init = cs" by (induction cs) auto
  ultimately show ?thesis
    using assignLoop_partition[of data cs ?init cl] assms
    by (simp add: assignPointsToCentroidClusters_def)
qed

text \<open>Assignment never fails when the dimensions agree, whatever the coordinates are.\<close>

lemma nearestScan_ok:
  "uniformDim (length p) cs \<Longrightarrow> \<exists>j. nearestScan p cs i ni sd = Inr j"
proof (induction cs arbitrary: i ni sd)
  case Nil
  then show ?case by simp
next
  case (Cons c cs)
  then obtain dd where "euclideanDistance p c = Inr dd"
    using euclideanDistance_ok[of p c] by auto
  with Cons show ?case by simp
qed

section \<open>Properties of the centroid mean\<close>










lemma mean64_length [simp]: "length (mean64 ps) = length (hd ps)"
  by (simp add: mean64_def)






section \<open>Properties of the convergence loop\<close>

lemma kMeansIteration_Inr:
  assumes "kMeansIteration r data tol cs n = Some (Inr (cl, ncs, conv, n'))"
  shows "assignPointsToCentroidClusters data cs = Inr cl \<and>
         newCentroidsOf r data cl n = Some (Inr (ncs, n')) \<and>
         allWithinTolerance tol cs ncs = Inr conv"
  using assms
  by (auto simp: kMeansIteration_def split: sum.splits option.splits)

lemma newCentroidsOf_length:
  "newCentroidsOf r data cl n = Some (Inr (ncs, n')) \<Longrightarrow> length ncs = length cl"
proof (induction cl arbitrary: n ncs n')
  case Nil
  then show ?case by simp
next
  case (Cons c cl)
  show ?case
  proof (cases "length (points c) = 0")
    case True
    with Cons.prems obtain s others n1 rest where
      "newCentroidsOf r data cl n1 = Some (Inr (rest, n'))" "ncs = s # rest"
      by (auto split: option.splits sum.splits list.splits)
    with Cons.IH show ?thesis by auto
  next
    case False
    with Cons.prems obtain m rest where
      "newCentroidsOf r data cl n = Some (Inr (rest, n'))" "ncs = m # rest"
      by (auto split: option.splits sum.splits)
    with Cons.IH show ?thesis by auto
  qed
qed

lemma allWithinTolerance_ok:
  "length cs = length ncs \<Longrightarrow> uniformDim d cs \<Longrightarrow> uniformDim d ncs \<Longrightarrow>
   \<exists>b. allWithinTolerance tol cs ncs = Inr b"
proof (induction cs ncs rule: list_induct2)
  case Nil
  then show ?case by auto
next
  case (Cons c cs c' cs')
  then obtain dd where "euclideanDistance c c' = Inr dd"
    using euclideanDistance_ok[of c c'] by auto
  with Cons show ?case by auto
qed

lemma kMeansIteration_shape:
  assumes "kMeansIteration r data tol cs n = Some (Inr (cl, ncs, conv, n'))"
  shows "length cl = length cs \<and> map centroid cl = cs \<and>
         mset (concat (map points cl)) = mset data \<and> length ncs = length cs"
proof -
  from kMeansIteration_Inr[OF assms] have a: "assignPointsToCentroidClusters data cs = Inr cl"
    and b: "newCentroidsOf r data cl n = Some (Inr (ncs, n'))" by auto
  from assign_partition[OF a] newCentroidsOf_length[OF b] show ?thesis by simp
qed

lemma stateAfter_Suc_end:
  "stateAfter r data tol cs cl conv n (Suc m) = Some (Inr (cs', cl', conv', n')) \<Longrightarrow>
   \<exists>csP clP convP nP. stateAfter r data tol cs cl conv n m = Some (Inr (csP, clP, convP, nP)) \<and>
      kMeansIteration r data tol csP nP = Some (Inr (cl', cs', conv', n'))"
proof (induction m arbitrary: cs cl conv n)
  case 0
  then show ?case by (auto split: option.splits sum.splits)
next
  case (Suc m)
  from Suc.prems obtain cl1 cs1 conv1 n1 where
    it: "kMeansIteration r data tol cs n = Some (Inr (cl1, cs1, conv1, n1))" and
    rest: "stateAfter r data tol cs1 cl1 conv1 n1 (Suc m) = Some (Inr (cs', cl', conv', n'))"
    by (auto split: option.splits sum.splits)
  from Suc.IH[OF rest] it show ?case by auto
qed

lemma stateAfter_length:
  "stateAfter r data tol cs cl conv n m = Some (Inr (cs', cl', conv', n')) \<Longrightarrow>
   length cs' = length cs"
proof (induction m arbitrary: cs cl conv n)
  case 0
  then show ?case by simp
next
  case (Suc m)
  from Suc.prems obtain cl1 cs1 conv1 n1 where
    it: "kMeansIteration r data tol cs n = Some (Inr (cl1, cs1, conv1, n1))" and
    rest: "stateAfter r data tol cs1 cl1 conv1 n1 m = Some (Inr (cs', cl', conv', n'))"
    by (auto split: option.splits sum.splits)
  from Suc.IH[OF rest] kMeansIteration_shape[OF it] show ?case by simp
qed

lemma kMeansLoop_stateAfter:
  "kMeansLoop r data maxIt tol cs cl conv it n = Some (Inr (cs', cl', conv', it', n')) \<Longrightarrow>
   \<exists>m. it' = it + m \<and>
       stateAfter r data tol cs cl conv n m = Some (Inr (cs', cl', conv', n')) \<and>
       (conv' \<or> maxIt \<le> int it') \<and>
       (\<forall>j<m. int (it + j) < maxIt \<and>
          (\<exists>csj clj nj. stateAfter r data tol cs cl conv n j = Some (Inr (csj, clj, False, nj))))"
proof (induction r data maxIt tol cs cl conv it n rule: kMeansLoop.induct)
  case (1 r data maxIt tol cs cl conv it n)
  show ?case
  proof (cases "\<not> conv \<and> int it < maxIt")
    case False
    with "1.prems" have "cs' = cs" "cl' = cl" "conv' = conv" "it' = it" "n' = n"
      by (simp_all add: kMeansLoop.simps)
    with False show ?thesis by (intro exI[of _ 0]) auto
  next
    case True
    with "1.prems" obtain cl1 cs1 conv1 n1 where
      it: "kMeansIteration r data tol cs n = Some (Inr (cl1, cs1, conv1, n1))" and
      rest: "kMeansLoop r data maxIt tol cs1 cl1 conv1 (Suc it) n1
               = Some (Inr (cs', cl', conv', it', n'))"
      by (subst (asm) kMeansLoop.simps) (auto split: option.splits sum.splits)
    from "1.IH"[OF True it refl refl refl refl rest] obtain m where m:
      "it' = Suc it + m"
      "stateAfter r data tol cs1 cl1 conv1 n1 m = Some (Inr (cs', cl', conv', n'))"
      "conv' \<or> maxIt \<le> int it'"
      "\<forall>j<m. int (Suc it + j) < maxIt \<and>
          (\<exists>csj clj nj. stateAfter r data tol cs1 cl1 conv1 n1 j = Some (Inr (csj, clj, False, nj)))"
      by blast
    have "\<forall>j<Suc m. int (it + j) < maxIt \<and>
          (\<exists>csj clj nj. stateAfter r data tol cs cl conv n j = Some (Inr (csj, clj, False, nj)))"
    proof (intro allI impI)
      fix j assume j: "j < Suc m"
      show "int (it + j) < maxIt \<and>
          (\<exists>csj clj nj. stateAfter r data tol cs cl conv n j = Some (Inr (csj, clj, False, nj)))"
      proof (cases j)
        case 0
        with True show ?thesis by simp
      next
        case (Suc j')
        with j m(4) it show ?thesis by simp
      qed
    qed
    with m it show ?thesis by (intro exI[of _ "Suc m"]) simp
  qed
qed

lemma assign_points_subset:
  assumes "assignPointsToCentroidClusters data cs = Inr cl" "c \<in> set cl"
  shows "set (points c) \<subseteq> set data"
proof -
  from assign_partition[OF assms(1)] have "mset (concat (map points cl)) = mset data" by simp
  then have "set (concat (map points cl)) = set data" by (rule mset_eq_setD)
  with assms(2) show ?thesis by auto
qed

section \<open>Properties of kMeans\<close>

lemma kMeans_valid:
  assumes "data \<noteq> []" "1 \<le> k" "k \<le> int (length data)" "uniformDim d data"
  shows "kMeans r data k maxIterationsOpt toleranceOpt n =
     (case initializeCentroidsWithKMeansPlusPlus r data k n of
        None \<Rightarrow> None
      | Some (Inl e) \<Rightarrow> Some (Inl e)
      | Some (Inr (centroids, n1)) \<Rightarrow>
          (case kMeansLoop r data (case maxIterationsOpt of None \<Rightarrow> 100 | Some m \<Rightarrow> m)
                  (case toleranceOpt of None \<Rightarrow> round64 (1 / 1000000) | Some t \<Rightarrow> t)
                  centroids [] False 0 n1 of
             None \<Rightarrow> None
           | Some (Inl e) \<Rightarrow> Some (Inl e)
           | Some (Inr (centroids', clusters, hasConverged, iteration, n2)) \<Rightarrow>
               Some (Inr (clusters, n2))))"
proof -
  from assms(1,4) have "length (hd data) = d" by (cases data) auto
  with assms have "list_all (\<lambda>p. length p = length (hd data)) data"
    by (simp add: uniformDim_def)
  with assms(1-3) show ?thesis
    by (simp add: kMeans_def Let_def)
qed

lemma kMeans_Inr:
  assumes "kMeans r data k maxIterationsOpt toleranceOpt n = Some (Inr (clusters, n'))"
  shows "data \<noteq> [] \<and> 1 \<le> k \<and> k \<le> int (length data) \<and> uniformDim (length (hd data)) data \<and>
    (\<exists>cs0 n0 cs' conv' it'.
       initializeCentroidsWithKMeansPlusPlus r data k n = Some (Inr (cs0, n0)) \<and>
       kMeansLoop r data (case maxIterationsOpt of None \<Rightarrow> 100 | Some m \<Rightarrow> m)
          (case toleranceOpt of None \<Rightarrow> round64 (1 / 1000000) | Some t \<Rightarrow> t)
          cs0 [] False 0 n0 = Some (Inr (cs', clusters, conv', it', n')))"
proof -
  have v: "data \<noteq> []" "1 \<le> k" "k \<le> int (length data)" "uniformDim (length (hd data)) data"
    using assms by (auto simp: kMeans_def Let_def uniformDim_def split: if_splits)
  from assms show ?thesis
    unfolding kMeans_valid[OF v]
    using v by (auto split: option.splits sum.splits)
qed

text \<open>What a loop that ran at least once leaves behind.\<close>

lemma kMeansLoop_last:
  assumes "kMeansLoop r data maxIt tol cs0 [] False 0 n0 = Some (Inr (cs', cl', conv', it', n'))"
    "1 \<le> maxIt"
  shows "0 < it' \<and> (\<exists>csP clP convP nP.
            stateAfter r data tol cs0 [] False n0 (it' - 1) = Some (Inr (csP, clP, convP, nP)) \<and>
            kMeansIteration r data tol csP nP = Some (Inr (cl', cs', conv', n')) \<and>
            length csP = length cs0)"
proof -
  from kMeansLoop_stateAfter[OF assms(1)] have
    sa: "stateAfter r data tol cs0 [] False n0 it' = Some (Inr (cs', cl', conv', n'))" and
    stop: "conv' \<or> maxIt \<le> int it'"
    by auto
  have pos: "0 < it'"
  proof (rule ccontr)
    assume "\<not> 0 < it'"
    then have "it' = 0" by simp
    with sa stop assms(2) show False by simp
  qed
  then obtain m where m: "it' = Suc m" by (cases it') auto
  from stateAfter_Suc_end[OF sa[unfolded m]] obtain csP clP convP nP where
    p: "stateAfter r data tol cs0 [] False n0 m = Some (Inr (csP, clP, convP, nP))"
       "kMeansIteration r data tol csP nP = Some (Inr (cl', cs', conv', n'))"
    by blast
  from stateAfter_length[OF p(1)] p m pos show ?thesis by auto
qed

section \<open>Where errors come from\<close>

lemma euclideanDistance_error:
  "euclideanDistance p q = Inl e \<Longrightarrow> \<not> isValidationError e"
  by (auto simp: euclideanDistance_def split: if_splits)

lemma minDistance_error:
  "minDistance p cs m = Inl e \<Longrightarrow> \<not> isValidationError e"
  by (induction cs arbitrary: m) (auto split: sum.splits dest: euclideanDistance_error)

lemma squaredDistances_error:
  "squaredDistances ps cs = Inl e \<Longrightarrow> \<not> isValidationError e"
  by (induction ps) (auto split: sum.splits dest: minDistance_error)

lemma seedLoop_error_aux:
  assumes "seedLoop r0 data0 k0 cs0 n0 = Some y0"
  shows "\<forall>e. y0 = Inl e \<longrightarrow> \<not> isValidationError e"
proof (rule seedLoop.raw_induct[OF _ assms])
  fix f :: "rng \<Rightarrow> point list \<Rightarrow> int \<Rightarrow> point list \<Rightarrow> nat
               \<Rightarrow> (error + point list \<times> nat) option"
    and r :: rng and data :: "point list" and k :: int and centroids :: "point list"
    and n :: nat and ra :: "error + point list \<times> nat"
  assume IH: "\<And>r data k centroids n y. f r data k centroids n = Some y \<Longrightarrow>
                \<forall>e. y = Inl e \<longrightarrow> \<not> isValidationError e"
  assume body: "(if int (length centroids) < k then
        (case squaredDistances data centroids of
           Inl e \<Rightarrow> Some (Inl e)
         | Inr distances \<Rightarrow>
             (case selectNext distances data (Fin 0)
                     (js_mul (Fin (r n)) (foldl js_add (Fin 0) distances)) of
                None \<Rightarrow> f r data k centroids (Suc n)
              | Some p \<Rightarrow> f r data k (centroids @ [p]) (Suc n)))
      else Some (Inr (centroids, n))) = Some ra"
  show "\<forall>e. ra = Inl e \<longrightarrow> \<not> isValidationError e"
  proof (cases "int (length centroids) < k")
    case False
    with body show ?thesis by auto
  next
    case True
    show ?thesis
    proof (cases "squaredDistances data centroids")
      case (Inl e')
      with True body show ?thesis by (auto dest: squaredDistances_error)
    next
      case (Inr distances)
      show ?thesis
      proof (cases "selectNext distances data (Fin 0)
                     (js_mul (Fin (r n)) (foldl js_add (Fin 0) distances))")
        case None
        with True Inr body have "f r data k centroids (Suc n) = Some ra" by simp
        then show ?thesis by (rule IH)
      next
        case (Some p)
        with True Inr body have "f r data k (centroids @ [p]) (Suc n) = Some ra" by simp
        then show ?thesis by (rule IH)
      qed
    qed
  qed
qed

lemma seedLoop_error:
  "seedLoop r data k cs n = Some (Inl e) \<Longrightarrow> \<not> isValidationError e"
  using seedLoop_error_aux by blast

lemma initialize_error:
  "initializeCentroidsWithKMeansPlusPlus r data k n = Some (Inl e) \<Longrightarrow> \<not> isValidationError e"
  by (auto simp: initializeCentroidsWithKMeansPlusPlus_def readPoint_def
      split: sum.splits if_splits jsnum.splits dest: seedLoop_error)

lemma nearestScan_error:
  "nearestScan p cs i ni sd = Inl e \<Longrightarrow> \<not> isValidationError e"
  by (induction cs arbitrary: i ni sd)
     (auto split: sum.splits if_splits dest: euclideanDistance_error)

lemma nearestCentroid_error:
  "nearestCentroid p cs = Inl e \<Longrightarrow> \<not> isValidationError e"
  by (auto simp: nearestCentroid_def split: list.splits sum.splits
      dest: euclideanDistance_error nearestScan_error)

lemma assignLoop_error:
  "assignLoop ps cs cl = Inl e \<Longrightarrow> \<not> isValidationError e"
  by (induction ps arbitrary: cl) (auto split: sum.splits dest: nearestCentroid_error)

lemma addPoint_error:
  "addPoint mean p = Inl e \<Longrightarrow> \<not> isValidationError e"
proof (induction p arbitrary: mean)
  case Nil
  then show ?case by simp
next
  case (Cons v vs)
  then show ?case
    by (cases v) (auto split: if_splits sum.splits)
qed

lemma sumPoints_error:
  "sumPoints d mean ps = Inl e \<Longrightarrow> \<not> isValidationError e"
  by (induction ps arbitrary: mean) (auto split: if_splits sum.splits dest: addPoint_error)

lemma calculateCentroidPosition_error:
  "calculateCentroidPosition ps = Inl e \<Longrightarrow> \<not> isValidationError e"
  by (auto simp: calculateCentroidPosition_def split: list.splits if_splits sum.splits
      dest: sumPoints_error addPoint_error)

lemma newCentroidsOf_error:
  "newCentroidsOf r data cl n = Some (Inl e) \<Longrightarrow> \<not> isValidationError e"
proof (induction cl arbitrary: n)
  case Nil
  then show ?case by simp
next
  case (Cons c cl)
  show ?case
  proof (cases "length (points c) = 0")
    case True
    with Cons.prems show ?thesis
      by (auto split: option.splits sum.splits list.splits
          dest: initialize_error Cons.IH)
  next
    case False
    with Cons.prems show ?thesis
      by (auto split: option.splits sum.splits
          dest: calculateCentroidPosition_error Cons.IH)
  qed
qed

lemma allWithinTolerance_error:
  "allWithinTolerance tol cs ncs = Inl e \<Longrightarrow> \<not> isValidationError e"
  by (induction tol cs ncs rule: allWithinTolerance.induct)
     (auto split: sum.splits if_splits dest: euclideanDistance_error)

lemma kMeansIteration_error:
  "kMeansIteration r data tol cs n = Some (Inl e) \<Longrightarrow> \<not> isValidationError e"
  by (auto simp: kMeansIteration_def assignPointsToCentroidClusters_def
      split: sum.splits option.splits
      dest: assignLoop_error newCentroidsOf_error allWithinTolerance_error)

lemma kMeansLoop_error:
  "kMeansLoop r data maxIt tol cs cl conv it n = Some (Inl e) \<Longrightarrow> \<not> isValidationError e"
proof (induction r data maxIt tol cs cl conv it n rule: kMeansLoop.induct)
  case (1 r data maxIt tol cs cl conv it n)
  show ?case
  proof (cases "\<not> conv \<and> int it < maxIt")
    case False
    with "1.prems" show ?thesis by (simp add: kMeansLoop.simps)
  next
    case True
    from "1.prems" True have
      "(case kMeansIteration r data tol cs n of
           None \<Rightarrow> None
         | Some (Inl e) \<Rightarrow> Some (Inl e)
         | Some (Inr (clusters', newCentroids, conv, n')) \<Rightarrow>
             kMeansLoop r data maxIt tol newCentroids clusters' conv (Suc it) n') = Some (Inl e)"
      by (subst (asm) kMeansLoop.simps) simp
    then consider "kMeansIteration r data tol cs n = Some (Inl e)"
      | cl1 cs1 conv1 n1 where "kMeansIteration r data tol cs n = Some (Inr (cl1, cs1, conv1, n1))"
          "kMeansLoop r data maxIt tol cs1 cl1 conv1 (Suc it) n1 = Some (Inl e)"
      by (auto split: option.splits sum.splits)
    then show ?thesis
    proof cases
      case 1
      then show ?thesis by (rule kMeansIteration_error)
    next
      case 2
      from "1.IH"[OF True 2(1) refl refl refl refl 2(2)] show ?thesis .
    qed
  qed
qed

section \<open>The positional implementation: seeding returns, errors\<close>

lemma shuffleLoop_ok:
  "rng_ok r \<Longrightarrow> i < length indices \<or> i = 0 \<Longrightarrow> length indices < 2 ^ 53 \<Longrightarrow>
   \<exists>ind' n'. shuffleLoop r indices i n = Inr (ind', n') \<and> length ind' = length indices"
proof (induction i arbitrary: indices n)
  case 0
  then show ?case by simp
next
  case (Suc i)
  then have lt: "Suc i < length indices" by simp
  with Suc.prems(3) have "1 \<le> Suc i + 1" "Suc i + 1 < 2 ^ 53" by simp_all
  from random_index[OF Suc.prems(1) this, of n] obtain j where
    j: "j < Suc i + 1" "js_floor (js_mul (Fin (r n)) (Fin (real (Suc i + 1)))) = Fin (real j)"
    by blast
  with lt have hi: "j < length indices" by simp
  let ?ind = "(indices[Suc i := indices ! j])[j := indices ! Suc i]"
  have "i < length ?ind \<or> i = 0" "length ?ind < 2 ^ 53" using lt Suc.prems(3) by simp_all
  from Suc.IH[OF Suc.prems(1) this, of "Suc n"] obtain ind' n' where
    "shuffleLoop r ?ind i (Suc n) = Inr (ind', n')" "length ind' = length ?ind" by blast
  with j(2) hi show ?case by (simp del: js_mul.simps js_floor.simps)
qed

lemma initialiseCentroids_ok:
  assumes "rng_ok r" "k \<le> int (length data)" "length data < 2 ^ 53"
  shows "\<exists>cs n'. initialiseCentroids r data k n = Inr (cs, n')"
proof -
  have "length data - 1 < length [0..<length data] \<or> length data - 1 = 0"
    "length [0..<length data] < 2 ^ 53" using assms(3) by auto
  from shuffleLoop_ok[OF assms(1) this, of n] obtain ind' n' where
    "shuffleLoop r [0..<length data] (length data - 1) n = Inr (ind', n')" by blast
  with assms(2) show ?thesis by (simp add: initialiseCentroids_def)
qed

lemma shuffleLoop_error:
  "shuffleLoop r indices i n = Inl e \<Longrightarrow> \<not> isValidationError e"
  by (induction i arbitrary: indices n)
     (auto simp del: js_mul.simps js_floor.simps split: if_splits jsnum.splits)

lemma initialiseCentroids_error:
  "initialiseCentroids r data k n = Inl e \<Longrightarrow> \<not> isValidationError e"
  by (auto simp: initialiseCentroids_def split: if_splits sum.splits dest: shuffleLoop_error)

lemma newCentroidsOf_positional_error:
  "newCentroidsOf_positional r data cl n = Inl e \<Longrightarrow> \<not> isValidationError e"
proof (induction cl arbitrary: n)
  case Nil
  then show ?case by simp
next
  case (Cons c cl)
  show ?case
  proof (cases "length (points c) = 0")
    case True
    with Cons.prems show ?thesis
      by (auto split: sum.splits list.splits dest: initialiseCentroids_error Cons.IH)
  next
    case False
    with Cons.prems show ?thesis
      by (auto split: sum.splits dest: calculateCentroidPosition_error Cons.IH)
  qed
qed

lemma kMeansIteration_positional_error:
  "kMeansIteration_positional r data tol cs n = Inl e \<Longrightarrow> \<not> isValidationError e"
  by (auto simp: kMeansIteration_positional_def assignPointsToCentroidClusters_def
      split: sum.splits
      dest: assignLoop_error newCentroidsOf_positional_error allWithinTolerance_error)

lemma kMeansLoop_positional_error:
  "kMeansLoop_positional r data maxIt tol cs cl conv it n = Inl e \<Longrightarrow> \<not> isValidationError e"
proof (induction r data maxIt tol cs cl conv it n rule: kMeansLoop_positional.induct)
  case (1 r data maxIt tol cs cl conv it n)
  show ?case
  proof (cases "\<not> conv \<and> int it < maxIt")
    case False
    with "1.prems" show ?thesis by (simp add: kMeansLoop_positional.simps)
  next
    case True
    from "1.prems" True have
      "(case kMeansIteration_positional r data tol cs n of
           Inl e \<Rightarrow> Inl e
         | Inr (clusters', newCentroids, conv, n') \<Rightarrow>
             kMeansLoop_positional r data maxIt tol newCentroids clusters' conv (Suc it) n')
         = Inl e"
      by (subst (asm) kMeansLoop_positional.simps) simp
    then consider "kMeansIteration_positional r data tol cs n = Inl e"
      | cl1 cs1 conv1 n1 where
          "kMeansIteration_positional r data tol cs n = Inr (cl1, cs1, conv1, n1)"
          "kMeansLoop_positional r data maxIt tol cs1 cl1 conv1 (Suc it) n1 = Inl e"
      by (auto split: sum.splits)
    then show ?thesis
    proof cases
      case 1
      then show ?thesis by (rule kMeansIteration_positional_error)
    next
      case 2
      from "1.IH"[OF True 2(1) refl refl refl 2(2)] show ?thesis .
    qed
  qed
qed

lemma kMeans_positional_valid:
  assumes "data \<noteq> []" "1 \<le> k" "k \<le> int (length data)" "uniformDim d data"
  shows "kMeans_positional r data k maxIterationsOpt toleranceOpt n =
     (case initialiseCentroids r data k n of
        Inl e \<Rightarrow> Inl e
      | Inr (centroids, n1) \<Rightarrow>
          (case kMeansLoop_positional r data
                  (case maxIterationsOpt of None \<Rightarrow> 100 | Some m \<Rightarrow> m)
                  (case toleranceOpt of None \<Rightarrow> round64 (1 / 1000000) | Some t \<Rightarrow> t)
                  centroids [] False 0 n1 of
             Inl e \<Rightarrow> Inl e
           | Inr (centroids', clusters, hasConverged, iteration, n2) \<Rightarrow> Inr (clusters, n2)))"
proof -
  from assms(1,4) have "length (hd data) = d" by (cases data) auto
  with assms have "list_all (\<lambda>p. length p = length (hd data)) data"
    by (simp add: uniformDim_def)
  with assms(1-3) show ?thesis
    by (simp add: kMeans_positional_def Let_def)
qed

section \<open>Claims\<close>

text \<open>
  C6. Whatever the random source and the options, \<^verbatim>\<open>kMeans\<close> (either implementation) on
  an empty dataset, or with \<open>k \<le> 0\<close> or \<open>k > |data|\<close>, fails with "Invalid number of
  clusters or empty dataset"; otherwise, on points that do not all have the dimensionality
  of the first, it fails with "All data points must have the same dimensions". The result
  is the error alone, and it does not depend on the random source: nothing is drawn or
  computed before. On input that passes both checks, no error \<^verbatim>\<open>kMeans\<close> may raise later
  is one of these two.
\<close>

theorem kMeans_validation:
  "(data = [] \<or> k \<le> 0 \<or> int (length data) < k \<longrightarrow>
      kMeans r data k maxIterationsOpt toleranceOpt n
        = Some (Inl InvalidClusterCountOrEmptyDataset) \<and>
      kMeans_positional r data k maxIterationsOpt toleranceOpt n
        = Inl InvalidClusterCountOrEmptyDataset) \<and>
   (data \<noteq> [] \<and> 0 < k \<and> k \<le> int (length data) \<and> \<not> uniformDim (length (hd data)) data \<longrightarrow>
      kMeans r data k maxIterationsOpt toleranceOpt n = Some (Inl DataDimensionMismatch) \<and>
      kMeans_positional r data k maxIterationsOpt toleranceOpt n = Inl DataDimensionMismatch) \<and>
   (data \<noteq> [] \<and> 0 < k \<and> k \<le> int (length data) \<and> uniformDim (length (hd data)) data \<longrightarrow>
      (\<forall>e. kMeans r data k maxIterationsOpt toleranceOpt n = Some (Inl e) \<longrightarrow>
           \<not> isValidationError e) \<and>
      (\<forall>e. kMeans_positional r data k maxIterationsOpt toleranceOpt n = Inl e \<longrightarrow>
           \<not> isValidationError e))"
proof (intro conjI impI allI)
  assume "data = [] \<or> k \<le> 0 \<or> int (length data) < k"
  then show "kMeans r data k maxIterationsOpt toleranceOpt n
        = Some (Inl InvalidClusterCountOrEmptyDataset)"
    by (auto simp: kMeans_def Let_def)
next
  assume "data = [] \<or> k \<le> 0 \<or> int (length data) < k"
  then show "kMeans_positional r data k maxIterationsOpt toleranceOpt n
        = Inl InvalidClusterCountOrEmptyDataset"
    by (auto simp: kMeans_positional_def Let_def)
next
  assume "data \<noteq> [] \<and> 0 < k \<and> k \<le> int (length data) \<and> \<not> uniformDim (length (hd data)) data"
  then show "kMeans r data k maxIterationsOpt toleranceOpt n = Some (Inl DataDimensionMismatch)"
    by (auto simp: kMeans_def Let_def uniformDim_def)
next
  assume "data \<noteq> [] \<and> 0 < k \<and> k \<le> int (length data) \<and> \<not> uniformDim (length (hd data)) data"
  then show "kMeans_positional r data k maxIterationsOpt toleranceOpt n = Inl DataDimensionMismatch"
    by (auto simp: kMeans_positional_def Let_def uniformDim_def)
next
  fix e
  assume v: "data \<noteq> [] \<and> 0 < k \<and> k \<le> int (length data) \<and> uniformDim (length (hd data)) data"
    and e: "kMeans r data k maxIterationsOpt toleranceOpt n = Some (Inl e)"
  from v have v': "data \<noteq> []" "1 \<le> k" "k \<le> int (length data)"
    "uniformDim (length (hd data)) data" by auto
  from e show "\<not> isValidationError e"
    unfolding kMeans_valid[OF v']
    by (auto split: option.splits sum.splits dest: initialize_error kMeansLoop_error)
next
  fix e
  assume v: "data \<noteq> [] \<and> 0 < k \<and> k \<le> int (length data) \<and> uniformDim (length (hd data)) data"
    and e: "kMeans_positional r data k maxIterationsOpt toleranceOpt n = Inl e"
  from v have v': "data \<noteq> []" "1 \<le> k" "k \<le> int (length data)"
    "uniformDim (length (hd data)) data" by auto
  from e show "\<not> isValidationError e"
    unfolding kMeans_positional_valid[OF v']
    by (auto split: sum.splits dest: initialiseCentroids_error kMeansLoop_positional_error)
qed

text \<open>The validation scenarios of the specification, and a valid input.\<close>

theorem kMeans_validation_witness:
  "kMeans (\<lambda>i. 0) [] 3 None None 0 = Some (Inl InvalidClusterCountOrEmptyDataset) \<and>
   kMeans_positional (\<lambda>i. 0) [] 3 None None 0 = Inl InvalidClusterCountOrEmptyDataset \<and>
   kMeans (\<lambda>i. 0) [[Fin 1, Fin 1], [Fin 2, Fin 2]] 3 None None 0
     = Some (Inl InvalidClusterCountOrEmptyDataset) \<and>
   kMeans (\<lambda>i. 0) [[Fin 1, Fin 1], [Fin 2, Fin 2, Fin 3], [Fin 4, Fin 4]] 2 None None 0
     = Some (Inl DataDimensionMismatch) \<and>
   kMeans_positional (\<lambda>i. 0) [[Fin 1, Fin 1], [Fin 2, Fin 2, Fin 3], [Fin 4, Fin 4]] 2 None None 0
     = Inl DataDimensionMismatch \<and>
   kMeans (\<lambda>i. 0) [[Fin 1, Fin 1], [Fin 2, Fin 2]] 2 None None 0
     \<noteq> Some (Inl InvalidClusterCountOrEmptyDataset) \<and>
   kMeans (\<lambda>i. 0) [[Fin 1, Fin 1], [Fin 2, Fin 2]] 2 None None 0
     \<noteq> Some (Inl DataDimensionMismatch)"
proof -
  note t1 = kMeans_validation [of "[]" 3 "\<lambda>i. 0" None None 0]
  note t2 = kMeans_validation [of "[[Fin 1, Fin 1], [Fin 2, Fin 2]]" 3 "\<lambda>i. 0" None None 0]
  note t3 = kMeans_validation
      [of "[[Fin 1, Fin 1], [Fin 2, Fin 2, Fin 3], [Fin 4, Fin 4]]" 2 "\<lambda>i. 0" None None 0]
  note t4 = kMeans_validation [of "[[Fin 1, Fin 1], [Fin 2, Fin 2]]" 2 "\<lambda>i. 0" None None 0]
  have 1: "kMeans (\<lambda>i. 0) [] 3 None None 0 = Some (Inl InvalidClusterCountOrEmptyDataset)"
    "kMeans_positional (\<lambda>i. 0) [] 3 None None 0 = Inl InvalidClusterCountOrEmptyDataset"
    using t1 by simp_all
  have 2: "kMeans (\<lambda>i. 0) [[Fin 1, Fin 1], [Fin 2, Fin 2]] 3 None None 0
     = Some (Inl InvalidClusterCountOrEmptyDataset)"
    using t2 by simp
  have 3: "kMeans (\<lambda>i. 0) [[Fin 1, Fin 1], [Fin 2, Fin 2, Fin 3], [Fin 4, Fin 4]] 2 None None 0
     = Some (Inl DataDimensionMismatch)"
    "kMeans_positional (\<lambda>i. 0) [[Fin 1, Fin 1], [Fin 2, Fin 2, Fin 3], [Fin 4, Fin 4]] 2
       None None 0 = Inl DataDimensionMismatch"
    using t3 by simp_all
  have 4: "\<forall>e. kMeans (\<lambda>i. 0) [[Fin 1, Fin 1], [Fin 2, Fin 2]] 2 None None 0 = Some (Inl e) \<longrightarrow>
        \<not> isValidationError e"
    using t4 by simp
  have 5: "kMeans (\<lambda>i. 0) [[Fin 1, Fin 1], [Fin 2, Fin 2]] 2 None None 0
     \<noteq> Some (Inl InvalidClusterCountOrEmptyDataset)"
    using 4 by force
  have 6: "kMeans (\<lambda>i. 0) [[Fin 1, Fin 1], [Fin 2, Fin 2]] 2 None None 0
     \<noteq> Some (Inl DataDimensionMismatch)"
    using 4 by force
  from 1 2 3 5 6 show ?thesis by blast
qed







end
